theory Spec2Isabelle
  imports Main "HOL-Library.Char_ord" "HOL-Library.List_Lexorder" "HOL-Library.Product_Lexorder"
begin

section \<open>Strings, characters and Python values\<close>

text \<open>
  A Python \<open>str\<close> is modelled as a \<^typ>\<open>string\<close>: one \<^typ>\<open>char\<close> per code point, for
  the code points below 256. The character classes below are the ones of CPython for that
  range: \<open>str.isspace\<close> (which is also what \<open>\s\<close> matches in a \<open>str\<close> pattern), the regex
  dot (anything but a newline) and \<open>str.lower\<close>.
\<close>

definition newline :: char where
  "newline = CHR 0x0A"

definition squote :: char where
  "squote = CHR 0x27"

definition dquote :: char where
  "dquote = CHR 0x22"

definition hash :: char where
  "hash = CHR ''#''"

definition is_space :: "char \<Rightarrow> bool" where
  "is_space c =
     (let n = (of_char c :: nat)
      in (9 \<le> n \<and> n \<le> 13) \<or> (28 \<le> n \<and> n \<le> 32) \<or> n = 133 \<or> n = 160)"

definition is_dot :: "char \<Rightarrow> bool" where
  "is_dot c = (c \<noteq> newline)"

definition lower_char :: "char \<Rightarrow> char" where
  "lower_char c =
     (let n = (of_char c :: nat)
      in if (65 \<le> n \<and> n \<le> 90) \<or> (192 \<le> n \<and> n \<le> 222 \<and> n \<noteq> 215)
         then char_of (n + 32) else c)"

definition lower :: "string \<Rightarrow> string" where
  "lower s = map lower_char s"

definition strip :: "string \<Rightarrow> string" where
  "strip s = rev (dropWhile is_space (rev (dropWhile is_space s)))"

definition startswith :: "string \<Rightarrow> string \<Rightarrow> bool" where
  "startswith s p = (take (length p) s = p)"

text \<open>\<open>needle in hay\<close> on strings: some suffix of \<open>hay\<close> starts with \<open>needle\<close>.\<close>

fun py_in :: "string \<Rightarrow> string \<Rightarrow> bool" where
  "py_in needle [] = (needle = [])"
| "py_in needle (c # cs) = (startswith (c # cs) needle \<or> py_in needle cs)"

text \<open>\<open>text.split('\n')\<close>: never empty, one more piece than there are newlines.\<close>

fun split_nl :: "string \<Rightarrow> string list" where
  "split_nl [] = [[]]"
| "split_nl (c # cs) =
     (if c = newline then [] # split_nl cs
      else (case split_nl cs of [] \<Rightarrow> [[c]] | l # ls \<Rightarrow> (c # l) # ls))"

datatype py_error =
    SyntaxError | ValueError | RecursionError | TypeError | IndexError | AttributeError

text \<open>Sequencing of computations that may raise: the first exception wins.\<close>

definition and_then :: "py_error + 'a \<Rightarrow> ('a \<Rightarrow> py_error + 'b) \<Rightarrow> py_error + 'b" where
  "and_then r f = (case r of Inl e \<Rightarrow> Inl e | Inr v \<Rightarrow> f v)"

text \<open>
  A match object is the list of its groups: index 0 is the whole match, index \<open>k\<close> is
  group \<open>k\<close>, which is \<open>None\<close> when the group took no part in the match. \<open>m[k]\<close> raises
  IndexError for a group the pattern does not have, \<open>len(None)\<close> raises TypeError,
  \<open>None.lower()\<close> raises AttributeError, and an f-string renders \<open>None\<close> as its name.
\<close>

type_synonym Match = "string option list"

definition getitem :: "Match \<Rightarrow> nat \<Rightarrow> py_error + string option" where
  "getitem m k = (if k < length m then Inr (m ! k) else Inl IndexError)"

definition py_len :: "string option \<Rightarrow> py_error + nat" where
  "py_len v = (case v of None \<Rightarrow> Inl TypeError | Some s \<Rightarrow> Inr (length s))"

definition py_lower :: "string option \<Rightarrow> py_error + string" where
  "py_lower v = (case v of None \<Rightarrow> Inl AttributeError | Some s \<Rightarrow> Inr (lower s))"

definition py_format :: "string option \<Rightarrow> string" where
  "py_format v = (case v of None \<Rightarrow> ''None'' | Some s \<Rightarrow> s)"

section \<open>Regular expressions of the analyzer\<close>

text \<open>
  Each pattern of the source is a matcher anchored at the start of its argument, written
  the way the backtracking engine runs it: a greedy quantifier first tries to consume one
  more character and falls back to the rest of the pattern, a lazy one first tries the rest
  of the pattern and falls back to consuming one more character. \<open>re.search\<close> tries the
  anchored matcher at every start position from left to right, \<open>re.match\<close> only at the
  first, and \<open>re.sub\<close> with an empty replacement deletes the matches it finds from left to
  right.
\<close>

fun re_search :: "(string \<Rightarrow> Match option) \<Rightarrow> string \<Rightarrow> Match option" where
  "re_search m [] = m []"
| "re_search m (c # cs) = (case m (c # cs) of Some r \<Rightarrow> Some r | None \<Rightarrow> re_search m cs)"

text \<open>
  \<open>re.sub(p, "", s)\<close> for a pattern whose anchored matcher returns the length of the match.
  None of the patterns used with it matches the empty string; an empty match would delete
  nothing.
\<close>

function re_sub_delete :: "(string \<Rightarrow> nat option) \<Rightarrow> string \<Rightarrow> string" where
  "re_sub_delete m [] = []"
| "re_sub_delete m (c # cs) =
     (case m (c # cs) of
        Some (Suc k) \<Rightarrow> re_sub_delete m (drop k cs)
      | _ \<Rightarrow> c # re_sub_delete m cs)"
  by pat_completeness auto
termination
  by (relation "measure (\<lambda>(m, s). length s)") auto

text \<open>\<open>$\<close> without MULTILINE: at the end of the string, or just before a final newline.\<close>

definition at_eol :: "string \<Rightarrow> bool" where
  "at_eol s = (s = [] \<or> s = [newline])"

text \<open>\<open>^\s+\<close> (get_issue_002): \<open>^\<close> holds at the start of the string only.\<close>

definition search_indent :: "string \<Rightarrow> Match option" where
  "search_indent s =
     (let ws = takeWhile is_space s in if ws = [] then None else Some [Some ws])"

text \<open>\<open>.*?q\<close> after an opening quote \<open>q\<close>: the number of characters up to and including
  the closing quote.\<close>

fun lazy_dots_quote :: "char \<Rightarrow> string \<Rightarrow> nat option" where
  "lazy_dots_quote q [] = None"
| "lazy_dots_quote q (c # cs) =
     (if c = q then Some 1
      else if is_dot c then map_option Suc (lazy_dots_quote q cs)
      else None)"

text \<open>\<open>'.*?'\<close> and \<open>".*?"\<close> (get_issue_003): the length of the match.\<close>

fun match_quoted :: "char \<Rightarrow> string \<Rightarrow> nat option" where
  "match_quoted q [] = None"
| "match_quoted q (c # cs) =
     (if c = q then map_option Suc (lazy_dots_quote q cs) else None)"

text \<open>\<open>.*$\<close>: the number of characters the greedy dot keeps.\<close>

fun greedy_dots_eol :: "string \<Rightarrow> nat option" where
  "greedy_dots_eol [] = Some 0"
| "greedy_dots_eol (c # cs) =
     (case (if is_dot c then greedy_dots_eol cs else None) of
        Some n \<Rightarrow> Some (Suc n)
      | None \<Rightarrow> if at_eol (c # cs) then Some 0 else None)"

text \<open>\<open>#.*$\<close> (get_issue_003, and group 1 of get_issue_005): the length of the match.\<close>

fun match_comment :: "string \<Rightarrow> nat option" where
  "match_comment [] = None"
| "match_comment (c # cs) =
     (if c = hash then map_option Suc (greedy_dots_eol cs) else None)"

text \<open>\<open>\s*#\<close>: the number of whitespace characters the greedy group keeps.\<close>

fun greedy_ws_hash :: "string \<Rightarrow> nat option" where
  "greedy_ws_hash [] = None"
| "greedy_ws_hash (c # cs) =
     (case (if is_space c then greedy_ws_hash cs else None) of
        Some n \<Rightarrow> Some (Suc n)
      | None \<Rightarrow> if c = hash then Some 0 else None)"

text \<open>\<open>(\s*)#\<close> (get_issue_004).\<close>

definition match_ws_hash :: "string \<Rightarrow> Match option" where
  "match_ws_hash s =
     (case greedy_ws_hash s of
        None \<Rightarrow> None
      | Some n \<Rightarrow> Some [Some (take (Suc n) s), Some (take n s)])"

text \<open>\<open>.*?(#.*$)\<close> (get_issue_005): the characters the lazy dot consumes, and the length
  of group 1.\<close>

fun lazy_dots_comment :: "string \<Rightarrow> (nat \<times> nat) option" where
  "lazy_dots_comment [] = None"
| "lazy_dots_comment (c # cs) =
     (case match_comment (c # cs) of
        Some n \<Rightarrow> Some (0, n)
      | None \<Rightarrow>
          if is_dot c then map_option (\<lambda>(k, n). (Suc k, n)) (lazy_dots_comment cs)
          else None)"

definition match_todo_comment :: "string \<Rightarrow> Match option" where
  "match_todo_comment s =
     (case lazy_dots_comment s of
        None \<Rightarrow> None
      | Some (k, n) \<Rightarrow> Some [Some (take (k + n) s), Some (take n (drop k s))])"

text \<open>\<open>(def|class)\s{2,}\<close> (get_issue_007): the alternatives are tried in order.\<close>

definition match_keyword :: "string \<Rightarrow> string \<Rightarrow> Match option" where
  "match_keyword kw s =
     (if startswith s kw then
        (let ws = takeWhile is_space (drop (length kw) s)
         in if 2 \<le> length ws then Some [Some (kw @ ws), Some kw] else None)
      else None)"

definition match_def_class :: "string \<Rightarrow> Match option" where
  "match_def_class s =
     (case match_keyword ''def'' s of
        Some m \<Rightarrow> Some m
      | None \<Rightarrow> match_keyword ''class'' s)"

text \<open>\<open>[a-z_].*\<close> (is_snake_case) and \<open>[A-Z].*\<close> (get_issue_008), with \<open>re.match\<close>.\<close>

definition is_snake_start :: "char \<Rightarrow> bool" where
  "is_snake_start c = ((CHR ''a'' \<le> c \<and> c \<le> CHR ''z'') \<or> c = CHR ''_'')"

definition is_upper_start :: "char \<Rightarrow> bool" where
  "is_upper_start c = (CHR ''A'' \<le> c \<and> c \<le> CHR ''Z'')"

fun match_first_then_dots :: "(char \<Rightarrow> bool) \<Rightarrow> string \<Rightarrow> Match option" where
  "match_first_then_dots first [] = None"
| "match_first_then_dots first (c # cs) =
     (if first c then Some [Some (c # takeWhile is_dot cs)] else None)"

section \<open>Issues and the line-level detectors\<close>

record Issue =
  code :: string
  msg :: string
  line_nbr :: int

definition mk_issue :: "string \<Rightarrow> string \<Rightarrow> int \<Rightarrow> Issue" where
  "mk_issue c m n = \<lparr>code = c, msg = m, line_nbr = n\<rparr>"

definition is_snake_case :: "string \<Rightarrow> Match option" where
  "is_snake_case text = match_first_then_dots is_snake_start text"

definition get_issue_001 :: "string \<Rightarrow> int \<Rightarrow> py_error + Issue list" where
  "get_issue_001 line n =
     (if length line > 79 then Inr [mk_issue ''S001'' ''Too long'' n] else Inr [])"

definition get_issue_002 :: "string \<Rightarrow> int \<Rightarrow> py_error + Issue list" where
  "get_issue_002 line n =
     (case search_indent line of
        None \<Rightarrow> Inr []
      | Some m \<Rightarrow>
          and_then (getitem m 0) (\<lambda>g. and_then (py_len g) (\<lambda>nbr_spaces.
            if nbr_spaces mod 4 = 0 then Inr []
            else Inr [mk_issue ''S002'' ''Indentation is not a multiple of four'' n])))"

definition strip_003 :: "string \<Rightarrow> string" where
  "strip_003 line =
     re_sub_delete match_comment
       (re_sub_delete (match_quoted dquote)
         (re_sub_delete (match_quoted squote) line))"

definition get_issue_003 :: "string \<Rightarrow> int \<Rightarrow> py_error + Issue list" where
  "get_issue_003 line n =
     (if py_in '';'' (strip_003 line)
      then Inr [mk_issue ''S003'' ''Unnecessary semicolon'' n] else Inr [])"

definition get_issue_004 :: "string \<Rightarrow> int \<Rightarrow> py_error + Issue list" where
  "get_issue_004 line n =
     (if startswith line ''#'' then Inr []
      else case re_search match_ws_hash line of
        None \<Rightarrow> Inr []
      | Some m \<Rightarrow>
          and_then (getitem m 1) (\<lambda>g. and_then (py_len g) (\<lambda>nbr_spaces.
            if nbr_spaces < 2
            then Inr [mk_issue ''S004'' ''Less than two spaces before inline comments'' n]
            else Inr [])))"

definition get_issue_005 :: "string \<Rightarrow> int \<Rightarrow> py_error + Issue list" where
  "get_issue_005 line n =
     (case re_search match_todo_comment line of
        None \<Rightarrow> Inr []
      | Some m \<Rightarrow>
          and_then (getitem m 0) (\<lambda>line'. and_then (py_lower line') (\<lambda>l.
            if py_in ''todo'' l then Inr [mk_issue ''S005'' ''TODO found'' n] else Inr [])))"

definition get_issue_006 :: "int \<Rightarrow> int \<Rightarrow> py_error + Issue list" where
  "get_issue_006 nbr_lines n =
     (if nbr_lines > 2
      then Inr [mk_issue ''S006'' ''More than two blank lines preceding a code line'' n]
      else Inr [])"

definition get_issue_007 :: "string \<Rightarrow> int \<Rightarrow> py_error + Issue list" where
  "get_issue_007 line n =
     (case re_search match_def_class line of
        None \<Rightarrow> Inr []
      | Some m \<Rightarrow>
          and_then (getitem m 1) (\<lambda>kw.
            Inr [mk_issue ''S007''
                   (''Too many spaces after '' @ [squote] @ py_format kw @ [squote]) n]))"

text \<open>
  \<open>yield from\<close> of one generator after another, collected into a list: the issues of both
  in order, unless one of them raises.
\<close>

definition yield_from ::
  "py_error + Issue list \<Rightarrow> py_error + Issue list \<Rightarrow> py_error + Issue list" where
  "yield_from r rest = and_then r (\<lambda>xs. and_then rest (\<lambda>ys. Inr (xs @ ys)))"

text \<open>
  The loop of get_issues_by_line over the numbered lines, with the counter
  \<open>preceding_empty_lines\<close> as an argument.
\<close>

fun scan_lines :: "int \<Rightarrow> int \<Rightarrow> string list \<Rightarrow> py_error + Issue list" where
  "scan_lines preceding_empty_lines n [] = Inr []"
| "scan_lines preceding_empty_lines n (line # rest) =
     (if strip line = [] then scan_lines (preceding_empty_lines + 1) (n + 1) rest
      else
        yield_from (get_issue_001 line n)
       (yield_from (get_issue_002 line n)
       (yield_from (get_issue_003 line n)
       (yield_from (get_issue_004 line n)
       (yield_from (get_issue_005 line n)
       (yield_from (get_issue_006 preceding_empty_lines n)
       (yield_from (get_issue_007 line n)
       (scan_lines 0 (n + 1) rest))))))))"

definition get_issues_by_line :: "string \<Rightarrow> py_error + Issue list" where
  "get_issues_by_line text = scan_lines 0 1 (split_nl text)"

section \<open>Syntax trees\<close>

text \<open>
  The tree that \<open>ast.parse\<close> returns, for the node classes and attributes the analyzer
  reads. Statements and expressions of every other class are \<open>OtherStmt\<close> and \<open>OtherExpr\<close>,
  which keep their child expressions and statements; the last argument of a statement, an
  expression and an \<open>arg\<close> is its \<open>lineno\<close>. A \<open>ClassDef\<close> holds its name, its bases (with
  the values of its keywords), its body and its decorators; a function definition holds its
  name, \<open>args\<close>, body, decorators and return annotation, and \<open>arguments\<close> has the fields of
  \<open>ast.arguments\<close> in their order.
\<close>

datatype expr =
    Name string int
  | ListExpr "expr list" int
  | DictExpr "expr option list" "expr list" int
  | SetExpr "expr list" int
  | OtherExpr "expr list" int

datatype arg = Arg (arg_name: string) (annotation: "expr option") (arg_lineno: int)

datatype arguments =
  Arguments (posonlyargs: "arg list") (args: "arg list") (vararg: "arg option")
    (kwonlyargs: "arg list") (kw_defaults: "expr option list") (kwarg: "arg option")
    (defaults: "expr list")

datatype stmt =
    FunctionDef string arguments "stmt list" "expr list" "expr option" int
  | AsyncFunctionDef string arguments "stmt list" "expr list" "expr option" int
  | ClassDef string "expr list" "stmt list" "expr list" int
  | Assign "expr list" expr int
  | OtherStmt "expr list" "stmt list" int

datatype module = Module "stmt list"

datatype node =
    ModuleNode module
  | StmtNode stmt
  | ExprNode expr
  | ArgumentsNode arguments
  | ArgNode arg

fun expr_lineno :: "expr \<Rightarrow> int" where
  "expr_lineno (Name ident l) = l"
| "expr_lineno (ListExpr elts l) = l"
| "expr_lineno (DictExpr keys vals l) = l"
| "expr_lineno (SetExpr elts l) = l"
| "expr_lineno (OtherExpr es l) = l"

text \<open>The entries of a list field that are nodes (\<open>None\<close> entries are skipped).\<close>

fun present :: "'a option list \<Rightarrow> 'a list" where
  "present [] = []"
| "present (None # xs) = present xs"
| "present (Some x # xs) = x # present xs"

text \<open>\<open>ast.iter_child_nodes\<close>: the child nodes, field by field.\<close>

fun iter_child_nodes :: "node \<Rightarrow> node list" where
  "iter_child_nodes (ModuleNode (Module body)) = map StmtNode body"
| "iter_child_nodes (StmtNode (FunctionDef name a body decs ret l)) =
     ArgumentsNode a # map StmtNode body @ map ExprNode decs @ map ExprNode (present [ret])"
| "iter_child_nodes (StmtNode (AsyncFunctionDef name a body decs ret l)) =
     ArgumentsNode a # map StmtNode body @ map ExprNode decs @ map ExprNode (present [ret])"
| "iter_child_nodes (StmtNode (ClassDef name bases body decs l)) =
     map ExprNode bases @ map StmtNode body @ map ExprNode decs"
| "iter_child_nodes (StmtNode (Assign targets val l)) =
     map ExprNode targets @ [ExprNode val]"
| "iter_child_nodes (StmtNode (OtherStmt es body l)) =
     map ExprNode es @ map StmtNode body"
| "iter_child_nodes (ExprNode (Name ident l)) = []"
| "iter_child_nodes (ExprNode (ListExpr elts l)) = map ExprNode elts"
| "iter_child_nodes (ExprNode (DictExpr keys vals l)) =
     map ExprNode (present keys) @ map ExprNode vals"
| "iter_child_nodes (ExprNode (SetExpr elts l)) = map ExprNode elts"
| "iter_child_nodes (ExprNode (OtherExpr es l)) = map ExprNode es"
| "iter_child_nodes (ArgumentsNode (Arguments po ar va kwo kwd kwa ds)) =
     map ArgNode po @ map ArgNode ar @ map ArgNode (present [va]) @ map ArgNode kwo
       @ map ExprNode (present kwd) @ map ArgNode (present [kwa]) @ map ExprNode ds"
| "iter_child_nodes (ArgNode (Arg name ann l)) = map ExprNode (present [ann])"

text \<open>The number of nodes of a tree: the measure of the traversal.\<close>

fun expr_nodes :: "expr \<Rightarrow> nat" where
  "expr_nodes (Name ident l) = 1"
| "expr_nodes (ListExpr elts l) = Suc (sum_list (map expr_nodes elts))"
| "expr_nodes (DictExpr keys vals l) =
     Suc (sum_list (map (\<lambda>k. case k of None \<Rightarrow> 0 | Some e \<Rightarrow> expr_nodes e) keys)
          + sum_list (map expr_nodes vals))"
| "expr_nodes (SetExpr elts l) = Suc (sum_list (map expr_nodes elts))"
| "expr_nodes (OtherExpr es l) = Suc (sum_list (map expr_nodes es))"

fun arg_nodes :: "arg \<Rightarrow> nat" where
  "arg_nodes (Arg name ann l) = Suc (sum_list (map expr_nodes (present [ann])))"

fun arguments_nodes :: "arguments \<Rightarrow> nat" where
  "arguments_nodes (Arguments po ar va kwo kwd kwa ds) =
     Suc (sum_list (map arg_nodes po) + sum_list (map arg_nodes ar)
          + sum_list (map arg_nodes (present [va])) + sum_list (map arg_nodes kwo)
          + sum_list (map expr_nodes (present kwd)) + sum_list (map arg_nodes (present [kwa]))
          + sum_list (map expr_nodes ds))"

fun stmt_nodes :: "stmt \<Rightarrow> nat" where
  "stmt_nodes (FunctionDef name a body decs ret l) =
     Suc (arguments_nodes a + sum_list (map stmt_nodes body) + sum_list (map expr_nodes decs)
          + sum_list (map expr_nodes (present [ret])))"
| "stmt_nodes (AsyncFunctionDef name a body decs ret l) =
     Suc (arguments_nodes a + sum_list (map stmt_nodes body) + sum_list (map expr_nodes decs)
          + sum_list (map expr_nodes (present [ret])))"
| "stmt_nodes (ClassDef name bases body decs l) =
     Suc (sum_list (map expr_nodes bases) + sum_list (map stmt_nodes body)
          + sum_list (map expr_nodes decs))"
| "stmt_nodes (Assign targets val l) = Suc (sum_list (map expr_nodes targets) + expr_nodes val)"
| "stmt_nodes (OtherStmt es body l) =
     Suc (sum_list (map expr_nodes es) + sum_list (map stmt_nodes body))"

fun node_size :: "node \<Rightarrow> nat" where
  "node_size (ModuleNode (Module body)) = Suc (sum_list (map stmt_nodes body))"
| "node_size (StmtNode s) = stmt_nodes s"
| "node_size (ExprNode e) = expr_nodes e"
| "node_size (ArgumentsNode a) = arguments_nodes a"
| "node_size (ArgNode a) = arg_nodes a"

text \<open>
  \<open>ast.walk\<close>: a queue that starts with the tree; the first node is taken off, its child
  nodes are added at the end, and the node is yielded.
\<close>

function walk_queue :: "node list \<Rightarrow> node list" where
  "walk_queue [] = []"
| "walk_queue (n # todo) = n # walk_queue (todo @ iter_child_nodes n)"
  by pat_completeness auto
termination
proof (relation "measure (\<lambda>todo. sum_list (map node_size todo))")
  show "wf (measure (\<lambda>todo. sum_list (map node_size todo)))"
    by simp
next
  fix n :: node and todo :: "node list"
  have keys: "sum_list (map (\<lambda>k. case k of None \<Rightarrow> 0 | Some e \<Rightarrow> f e) ks)
      = sum_list (map f (present ks))" for f :: "expr \<Rightarrow> nat" and ks
    by (induction ks rule: present.induct) simp_all
  have "Suc (sum_list (map node_size (iter_child_nodes n))) = node_size n"
    by (induction n rule: iter_child_nodes.induct) (simp_all add: comp_def keys)
  then have "sum_list (map node_size (iter_child_nodes n)) < node_size n"
    by simp
  then show "(todo @ iter_child_nodes n, n # todo)
      \<in> measure (\<lambda>todo. sum_list (map node_size todo))"
    by simp
qed

definition walk :: "node \<Rightarrow> node list" where
  "walk tree = walk_queue [tree]"

section \<open>The node-level detectors\<close>

text \<open>
  Each detector receives the attributes of the node that it reads: the name and the line
  of the definition, its \<open>args\<close>, or its body.
\<close>

definition get_issue_008 :: "string \<Rightarrow> int \<Rightarrow> Issue list" where
  "get_issue_008 name lineno =
     (case match_first_then_dots is_upper_start name of
        None \<Rightarrow>
          [mk_issue ''S008''
             (''Class name '' @ [squote] @ name @ [squote] @ '' should use CamelCase'') lineno]
      | Some m \<Rightarrow> [])"

definition get_issue_009 :: "string \<Rightarrow> int \<Rightarrow> Issue list" where
  "get_issue_009 name lineno =
     (case is_snake_case name of
        None \<Rightarrow>
          [mk_issue ''S009''
             (''Function name '' @ [squote] @ name @ [squote] @ '' should use snake_case'')
             lineno]
      | Some m \<Rightarrow> [])"

definition issue_010 :: "arg \<Rightarrow> Issue list" where
  "issue_010 a =
     (case is_snake_case (arg_name a) of
        None \<Rightarrow>
          [mk_issue ''S010''
             (''Argument name '' @ [squote] @ arg_name a @ [squote] @ '' should be snake case'')
             (arg_lineno a)]
      | Some m \<Rightarrow> [])"

definition get_issue_010 :: "arguments \<Rightarrow> Issue list" where
  "get_issue_010 a = concat (map issue_010 (args a))"

text \<open>Only a \<open>Name\<close> has the attribute \<open>id\<close>.\<close>

fun target_issue_011 :: "int \<Rightarrow> expr \<Rightarrow> Issue list" where
  "target_issue_011 lineno (Name ident l) =
     (case is_snake_case ident of
        None \<Rightarrow>
          [mk_issue ''S011''
             (''Variable '' @ [squote] @ ident @ [squote] @ '' should be snake case'') lineno]
      | Some m \<Rightarrow> [])"
| "target_issue_011 lineno e = []"

fun stmt_issues_011 :: "stmt \<Rightarrow> Issue list" where
  "stmt_issues_011 (Assign targets val lineno) = concat (map (target_issue_011 lineno) targets)"
| "stmt_issues_011 s = []"

definition get_issue_011 :: "stmt list \<Rightarrow> Issue list" where
  "get_issue_011 body = concat (map stmt_issues_011 body)"

fun is_mutable_literal :: "expr \<Rightarrow> bool" where
  "is_mutable_literal (ListExpr elts l) = True"
| "is_mutable_literal (DictExpr keys vals l) = True"
| "is_mutable_literal (SetExpr elts l) = True"
| "is_mutable_literal e = False"

definition issue_012 :: "expr \<Rightarrow> Issue list" where
  "issue_012 dflt =
     (if is_mutable_literal dflt
      then [mk_issue ''S012'' ''Default argument value is mutable'' (expr_lineno dflt)]
      else [])"

definition get_issue_012 :: "arguments \<Rightarrow> Issue list" where
  "get_issue_012 a = concat (map issue_012 (defaults a))"

text \<open>The body of the loop of get_issues_by_node: what one node of the walk yields.\<close>

fun node_issues :: "node \<Rightarrow> Issue list" where
  "node_issues (StmtNode (ClassDef name bases body decs lineno)) = get_issue_008 name lineno"
| "node_issues (StmtNode (FunctionDef name a body decs ret lineno)) =
     get_issue_009 name lineno @ get_issue_010 a @ get_issue_011 body @ get_issue_012 a"
| "node_issues n = []"

text \<open>
  \<open>ast.parse\<close> is a parameter: it returns the module, or the exception it raises
  (SyntaxError for text that is not a program).
\<close>

type_synonym parser = "string \<Rightarrow> py_error + module"

definition get_issues_by_node :: "parser \<Rightarrow> string \<Rightarrow> py_error + Issue list" where
  "get_issues_by_node parse text =
     and_then (parse text) (\<lambda>tree. Inr (concat (map node_issues (walk (ModuleNode tree)))))"

section \<open>The report\<close>

definition sort_issues :: "Issue list \<Rightarrow> Issue list" where
  "sort_issues issues = sort_key (\<lambda>i. (line_nbr i, code i)) issues"

text \<open>The issues of check_file in the order in which it prints them.\<close>

definition report :: "parser \<Rightarrow> string \<Rightarrow> py_error + Issue list" where
  "report parse text =
     and_then (get_issues_by_line text) (\<lambda>by_line.
     and_then (get_issues_by_node parse text) (\<lambda>by_node.
       Inr (sort_issues (by_line @ by_node))))"

fun str_nat :: "nat \<Rightarrow> string" where
  "str_nat n =
     (if n < 10 then [char_of (48 + n)]
      else str_nat (n div 10) @ [char_of (48 + n mod 10)])"

definition str_int :: "int \<Rightarrow> string" where
  "str_int i = (if i < 0 then ''-'' @ str_nat (nat (- i)) else str_nat (nat i))"

definition render :: "string \<Rightarrow> Issue \<Rightarrow> string" where
  "render filepath issue =
     filepath @ '': Line '' @ str_int (line_nbr issue) @ '': '' @ code issue @ '' ''
       @ msg issue"

text \<open>check_file on the text read from the file: the lines it prints.\<close>

definition check_file :: "parser \<Rightarrow> string \<Rightarrow> string \<Rightarrow> py_error + string list" where
  "check_file parse filepath text =
     and_then (report parse text) (\<lambda>issues. Inr (map (render filepath) issues))"

section \<open>Notions of the specification\<close>

text \<open>The part of a line from its first \<open>#\<close> to its end (empty when there is none).\<close>

definition comment_part :: "string \<Rightarrow> string" where
  "comment_part line = dropWhile (\<lambda>c. c \<noteq> hash) line"

text \<open>A full-line comment: the first character that is not whitespace is \<open>#\<close>.\<close>

definition full_line_comment :: "string \<Rightarrow> bool" where
  "full_line_comment line =
     (case dropWhile is_space line of [] \<Rightarrow> False | c # cs \<Rightarrow> c = hash)"

text \<open>A blank line, and the number of consecutive blank lines just before the line with
  index \<open>k\<close> (counted from 0).\<close>

definition blank :: "string \<Rightarrow> bool" where
  "blank line = (strip line = [])"

definition preceding_blank :: "string list \<Rightarrow> nat \<Rightarrow> nat" where
  "preceding_blank ls k = length (takeWhile blank (rev (take k ls)))"

text \<open>How many issues with code \<open>c\<close> a list reports at line \<open>n\<close>.\<close>

definition count_issues :: "string \<Rightarrow> int \<Rightarrow> Issue list \<Rightarrow> nat" where
  "count_issues c n out = length (filter (\<lambda>i. code i = c \<and> line_nbr i = n) out)"

text \<open>
  Removing the string literals written with the quote \<open>q\<close>, in the words of the
  specification: a literal runs from a quote to the nearest quote after it, the literals
  are taken from left to right, and a last quote without a partner stays. The trailing
  comment is everything from the first \<open>#\<close>.
\<close>

function remove_literals :: "char \<Rightarrow> string \<Rightarrow> string" where
  "remove_literals q s =
     (let before = takeWhile (\<lambda>c. c \<noteq> q) s; rest = dropWhile (\<lambda>c. c \<noteq> q) s
      in case rest of
           [] \<Rightarrow> before
         | q1 # inner \<Rightarrow>
             (case dropWhile (\<lambda>c. c \<noteq> q) inner of
                [] \<Rightarrow> before @ rest
              | q2 # after \<Rightarrow> before @ remove_literals q after))"
  by pat_completeness auto
termination
proof (relation "measure (\<lambda>(q, s). length s)")
  show "wf (measure (\<lambda>(q, s). length s))"
    by simp
next
  fix q :: char and s before rest q1 inner q2 after
  assume rest: "rest = dropWhile (\<lambda>c. c \<noteq> q) s" "rest = q1 # inner"
    and inner: "dropWhile (\<lambda>c. c \<noteq> q) inner = q2 # after"
  have "length (dropWhile (\<lambda>c. c \<noteq> q) inner) \<le> length inner"
    by (rule length_dropWhile_le)
  then have a: "length (q2 # after) \<le> length inner"
    by (simp only: inner)
  have "length (dropWhile (\<lambda>c. c \<noteq> q) s) \<le> length s"
    by (rule length_dropWhile_le)
  then have b: "length (q1 # inner) \<le> length s"
    by (simp only: rest(1) [symmetric] rest(2))
  from a b have "length after < length s"
    by simp
  then show "((q, after), (q, s)) \<in> measure (\<lambda>(q, s). length s)"
    by simp
qed

declare remove_literals.simps [simp del]

definition remove_trailing_comment :: "string \<Rightarrow> string" where
  "remove_trailing_comment s = takeWhile (\<lambda>c. c \<noteq> hash) s"

text \<open>
  The naming predicate in the words of the specification: the first character is a
  lowercase ASCII letter or an underscore. The names that VariableNamingConvention looks
  at are the plain-name targets of the assignment statements directly in a body.
\<close>

definition first_char_snake :: "string \<Rightarrow> bool" where
  "first_char_snake name = (case name of [] \<Rightarrow> False | c # rest \<Rightarrow> is_snake_start c)"

fun target_names :: "expr \<Rightarrow> string list" where
  "target_names (Name ident l) = [ident]"
| "target_names e = []"

fun stmt_assigned_names :: "stmt \<Rightarrow> string list" where
  "stmt_assigned_names (Assign targets val l) = concat (map target_names targets)"
| "stmt_assigned_names s = []"

definition assigned_names :: "stmt list \<Rightarrow> string list" where
  "assigned_names body = concat (map stmt_assigned_names body)"

section \<open>Example inputs\<close>

text \<open>A parser that rejects \<open>def f(:\<close> with a SyntaxError, as \<open>ast.parse\<close> does.\<close>

definition rejecting_parser :: parser where
  "rejecting_parser t = (if t = ''def f(:'' then Inl SyntaxError else Inr (Module []))"

text \<open>
  The tree of
  \<^verbatim>\<open>
  async def BadName(X=[]):
      Y = 0
      def Inner():
          pass
  \<close>
\<close>

definition async_example :: module where
  "async_example =
     Module [AsyncFunctionDef ''BadName''
       (Arguments [] [Arg ''X'' None 1] None [] [] None [ListExpr [] 1])
       [Assign [Name ''Y'' 2] (OtherExpr [] 2) 2,
        FunctionDef ''Inner'' (Arguments [] [] None [] [] None []) [OtherStmt [] [] 4] [] None 3]
       [] None 1]"

text \<open>
  The tree of
  \<^verbatim>\<open>
  def f(a, b=[], *,
        c={}):
      pass
  \<close>
\<close>

definition kwonly_example :: module where
  "kwonly_example =
     Module [FunctionDef ''f''
       (Arguments [] [Arg ''a'' None 1, Arg ''b'' None 1] None [Arg ''c'' None 2]
          [Some (DictExpr [] [] 2)] None [ListExpr [] 1])
       [OtherStmt [] [] 3] [] None 1]"

text \<open>The tree of a class \<open>myClass\<close> and a function \<open>Bad(X)\<close>, both on line 1.\<close>

definition two_defs_example :: module where
  "two_defs_example =
     Module [ClassDef ''myClass'' [] [OtherStmt [] [] 1] [] 1,
             FunctionDef ''Bad'' (Arguments [] [Arg ''X'' None 1] None [] [] None [])
               [OtherStmt [] [] 1] [] None 1]"

text \<open>
  The tree of
  \<^verbatim>\<open>
  def my_Function2(_X9, Xbad):
      xY = Zed = 0
      pass
  \<close>
\<close>

definition naming_example :: module where
  "naming_example =
     Module [FunctionDef ''my_Function2''
       (Arguments [] [Arg ''_X9'' None 1, Arg ''Xbad'' None 1] None [] [] None [])
       [Assign [Name ''xY'' 2, Name ''Zed'' 2] (OtherExpr [] 2) 2, OtherStmt [] [] 3]
       [] None 1]"

section \<open>The line-level pass returns\<close>

lemma re_search_Some: "re_search m s = Some r \<Longrightarrow> \<exists>t. m t = Some r"
  by (induction s) (auto split: option.splits)

lemma match_ws_hash_groups: "match_ws_hash s = Some r \<Longrightarrow> \<exists>w g. r = [Some w, Some g]"
  by (auto simp: match_ws_hash_def split: option.splits)

lemma match_todo_comment_groups: "match_todo_comment s = Some r \<Longrightarrow> \<exists>w g. r = [Some w, Some g]"
  by (auto simp: match_todo_comment_def split: option.splits)

lemma match_def_class_groups: "match_def_class s = Some r \<Longrightarrow> \<exists>w g. r = [Some w, Some g]"
  by (auto simp: match_def_class_def match_keyword_def Let_def split: option.splits if_splits)

lemma get_issue_001_Inr:
  "\<exists>xs. get_issue_001 line n = Inr xs \<and> set xs \<subseteq> {mk_issue ''S001'' ''Too long'' n}"
  by (simp add: get_issue_001_def)

lemma get_issue_002_Inr:
  "\<exists>xs. get_issue_002 line n = Inr xs
     \<and> set xs \<subseteq> {mk_issue ''S002'' ''Indentation is not a multiple of four'' n}"
  by (simp add: get_issue_002_def search_indent_def Let_def and_then_def getitem_def py_len_def)

lemma get_issue_003_Inr:
  "\<exists>xs. get_issue_003 line n = Inr xs \<and> set xs \<subseteq> {mk_issue ''S003'' ''Unnecessary semicolon'' n}"
  by (simp add: get_issue_003_def)

lemma get_issue_004_Inr:
  "\<exists>xs. get_issue_004 line n = Inr xs
     \<and> set xs \<subseteq> {mk_issue ''S004'' ''Less than two spaces before inline comments'' n}"
proof (cases "re_search match_ws_hash line")
  case None
  then show ?thesis by (simp add: get_issue_004_def)
next
  case (Some m)
  then obtain w g where "m = [Some w, Some g]"
    using re_search_Some match_ws_hash_groups by blast
  with Some show ?thesis
    by (simp add: get_issue_004_def and_then_def getitem_def py_len_def)
qed

lemma get_issue_005_Inr:
  "\<exists>xs. get_issue_005 line n = Inr xs \<and> set xs \<subseteq> {mk_issue ''S005'' ''TODO found'' n}"
proof (cases "re_search match_todo_comment line")
  case None
  then show ?thesis by (simp add: get_issue_005_def)
next
  case (Some m)
  then obtain w g where "m = [Some w, Some g]"
    using re_search_Some match_todo_comment_groups by blast
  with Some show ?thesis
    by (simp add: get_issue_005_def and_then_def getitem_def py_lower_def)
qed

lemma get_issue_006_Inr:
  "\<exists>xs. get_issue_006 p n = Inr xs
     \<and> set xs \<subseteq> {mk_issue ''S006'' ''More than two blank lines preceding a code line'' n}"
  by (simp add: get_issue_006_def)

lemma get_issue_007_Inr:
  "\<exists>xs. get_issue_007 line n = Inr xs \<and> (\<forall>i\<in>set xs. code i = ''S007'' \<and> line_nbr i = n)"
proof (cases "re_search match_def_class line")
  case None
  then show ?thesis by (simp add: get_issue_007_def)
next
  case (Some m)
  then obtain w g where "m = [Some w, Some g]"
    using re_search_Some match_def_class_groups by blast
  with Some show ?thesis
    by (simp add: get_issue_007_def and_then_def getitem_def mk_issue_def)
qed


lemma takeWhile_append_stop:
  "\<exists>x\<in>set xs. \<not> P x \<Longrightarrow> takeWhile P (xs @ ys) = takeWhile P xs"
  by (induction xs) auto

lemma takeWhile_all_then_stop:
  "\<forall>x\<in>set xs. P x \<Longrightarrow> \<not> P y \<Longrightarrow> takeWhile P (xs @ [y]) = xs"
  by (induction xs) auto

lemma scan_lines_Inr: "\<exists>out. scan_lines p n ls = Inr out"
proof (induction ls arbitrary: p n)
  case Nil
  then show ?case by simp
next
  case (Cons line rest)
  obtain x1 x2 x3 x4 x5 x6 x7 out' where
    "get_issue_001 line n = Inr x1" "get_issue_002 line n = Inr x2"
    "get_issue_003 line n = Inr x3" "get_issue_004 line n = Inr x4"
    "get_issue_005 line n = Inr x5" "get_issue_006 p n = Inr x6"
    "get_issue_007 line n = Inr x7" "scan_lines 0 (n + 1) rest = Inr out'"
    using get_issue_001_Inr get_issue_002_Inr get_issue_003_Inr get_issue_004_Inr
      get_issue_005_Inr get_issue_006_Inr get_issue_007_Inr Cons.IH by metis
  then show ?case
    using Cons.IH [of "p + 1" "n + 1"] by (simp add: yield_from_def and_then_def)
qed

lemma scan_lines_nonblank:
  assumes "strip line \<noteq> []"
  shows "\<exists>here out'. scan_lines p n (line # rest) = Inr (here @ out')
           \<and> scan_lines 0 (n + 1) rest = Inr out'
           \<and> (\<forall>i\<in>set here. line_nbr i = n)
           \<and> length (filter (\<lambda>i. code i = ''S006'') here) = (if p > 2 then 1 else 0)
           \<and> (\<exists>x3. get_issue_003 line n = Inr x3
                \<and> filter (\<lambda>i. code i = ''S003'') here = x3)"
proof -
  obtain x1 where x1: "get_issue_001 line n = Inr x1" "set x1 \<subseteq> {mk_issue ''S001'' ''Too long'' n}"
    using get_issue_001_Inr by blast
  obtain x2 where x2: "get_issue_002 line n = Inr x2"
      "set x2 \<subseteq> {mk_issue ''S002'' ''Indentation is not a multiple of four'' n}"
    using get_issue_002_Inr by blast
  obtain x3 where x3: "get_issue_003 line n = Inr x3"
      "set x3 \<subseteq> {mk_issue ''S003'' ''Unnecessary semicolon'' n}"
    using get_issue_003_Inr by blast
  obtain x4 where x4: "get_issue_004 line n = Inr x4"
      "set x4 \<subseteq> {mk_issue ''S004'' ''Less than two spaces before inline comments'' n}"
    using get_issue_004_Inr by blast
  obtain x5 where x5: "get_issue_005 line n = Inr x5" "set x5 \<subseteq> {mk_issue ''S005'' ''TODO found'' n}"
    using get_issue_005_Inr by blast
  obtain x7 where x7: "get_issue_007 line n = Inr x7"
      "\<forall>i\<in>set x7. code i = ''S007'' \<and> line_nbr i = n"
    using get_issue_007_Inr by blast
  obtain out' where out': "scan_lines 0 (n + 1) rest = Inr out'"
    using scan_lines_Inr by blast
  let ?x6 = "if p > 2
    then [mk_issue ''S006'' ''More than two blank lines preceding a code line'' n] else []"
  let ?here = "x1 @ x2 @ x3 @ x4 @ x5 @ ?x6 @ x7"
  have x6: "get_issue_006 p n = Inr ?x6"
    by (simp add: get_issue_006_def)
  have run: "scan_lines p n (line # rest) = Inr (?here @ out')"
    using assms x1(1) x2(1) x3(1) x4(1) x5(1) x6 x7(1) out'
    by (simp add: yield_from_def and_then_def)
  have nbr: "\<forall>i\<in>set ?here. line_nbr i = n"
    using x1(2) x2(2) x3(2) x4(2) x5(2) x7(2) by (auto simp: mk_issue_def)
  have f1: "filter (\<lambda>i. code i = ''S006'') x1 = []"
    using x1(2) by (auto simp: filter_empty_conv mk_issue_def)
  have f2: "filter (\<lambda>i. code i = ''S006'') x2 = []"
    using x2(2) by (auto simp: filter_empty_conv mk_issue_def)
  have f3: "filter (\<lambda>i. code i = ''S006'') x3 = []"
    using x3(2) by (auto simp: filter_empty_conv mk_issue_def)
  have f4: "filter (\<lambda>i. code i = ''S006'') x4 = []"
    using x4(2) by (auto simp: filter_empty_conv mk_issue_def)
  have f5: "filter (\<lambda>i. code i = ''S006'') x5 = []"
    using x5(2) by (auto simp: filter_empty_conv mk_issue_def)
  have f7: "filter (\<lambda>i. code i = ''S006'') x7 = []"
    using x7(2) by (auto simp: filter_empty_conv)
  have cnt: "length (filter (\<lambda>i. code i = ''S006'') ?here) = (if p > 2 then 1 else 0)"
    using f1 f2 f3 f4 f5 f7 by (simp add: mk_issue_def)
  have g1: "filter (\<lambda>i. code i = ''S003'') x1 = []"
    using x1(2) by (auto simp: filter_empty_conv mk_issue_def)
  have g2: "filter (\<lambda>i. code i = ''S003'') x2 = []"
    using x2(2) by (auto simp: filter_empty_conv mk_issue_def)
  have g3: "filter (\<lambda>i. code i = ''S003'') x3 = x3"
    using x3(2) by (auto simp: filter_id_conv mk_issue_def)
  have g4: "filter (\<lambda>i. code i = ''S003'') x4 = []"
    using x4(2) by (auto simp: filter_empty_conv mk_issue_def)
  have g5: "filter (\<lambda>i. code i = ''S003'') x5 = []"
    using x5(2) by (auto simp: filter_empty_conv mk_issue_def)
  have g7: "filter (\<lambda>i. code i = ''S003'') x7 = []"
    using x7(2) by (auto simp: filter_empty_conv)
  have semi: "filter (\<lambda>i. code i = ''S003'') ?here = x3"
    using g1 g2 g3 g4 g5 g7 by (simp add: mk_issue_def)
  show ?thesis
    using run out' nbr cnt x3(1) semi by blast
qed

lemma scan_lines_line_nbr:
  "scan_lines p n ls = Inr out \<Longrightarrow> \<forall>i\<in>set out. n \<le> line_nbr i"
proof (induction ls arbitrary: p n out)
  case Nil
  then show ?case by simp
next
  case (Cons line rest)
  show ?case
  proof (cases "strip line = []")
    case True
    with Cons.prems have "scan_lines (p + 1) (n + 1) rest = Inr out" by simp
    from Cons.IH [OF this] show ?thesis by force
  next
    case False
    from scan_lines_nonblank [OF False, of p n rest] obtain here out' where
      h: "scan_lines p n (line # rest) = Inr (here @ out')"
         "scan_lines 0 (n + 1) rest = Inr out'" "\<forall>i\<in>set here. line_nbr i = n"
      by blast
    from Cons.IH [OF h(2)] have "\<forall>i\<in>set out'. n \<le> line_nbr i" by force
    with h(1,3) Cons.prems show ?thesis by auto
  qed
qed

lemma scan_lines_count_S006:
  "scan_lines p n ls = Inr out \<Longrightarrow> k < length ls \<Longrightarrow> \<not> blank (ls ! k) \<Longrightarrow> 0 \<le> p \<Longrightarrow>
   count_issues ''S006'' (n + int k) out =
     (if 2 < (if \<forall>j<k. blank (ls ! j) then nat p + k else preceding_blank ls k) then 1 else 0)"
proof (induction ls arbitrary: p n k out)
  case Nil
  then show ?case by simp
next
  case (Cons line rest)
  show ?case
  proof (cases "strip line = []")
    case True
    then have bl: "blank line" by (simp add: blank_def)
    with Cons.prems obtain k' where k: "k = Suc k'"
      by (cases k) auto
    from True Cons.prems have run: "scan_lines (p + 1) (n + 1) rest = Inr out" by simp
    have eq: "n + 1 + int k' = n + int k"
      using k by simp
    have np: "nat (p + 1) + k' = nat p + k"
      using k Cons.prems(4) by simp
    have ih: "count_issues ''S006'' (n + int k) out =
      (if 2 < (if \<forall>j<k'. blank (rest ! j) then nat p + k else preceding_blank rest k')
       then 1 else 0)"
      using Cons.IH [OF run, of k'] Cons.prems k unfolding eq np by simp
    have all: "(\<forall>j<k. blank ((line # rest) ! j)) = (\<forall>j<k'. blank (rest ! j))"
      using bl k by (auto simp: less_Suc_eq_0_disj)
    show ?thesis
    proof (cases "\<forall>j<k'. blank (rest ! j)")
      case True
      with ih all show ?thesis by simp
    next
      case F: False
      then obtain j where j: "j < k'" "\<not> blank (rest ! j)" by blast
      have "k' \<le> length rest" using Cons.prems k by simp
      with j have "rest ! j \<in> set (take k' rest)"
        by (metis in_set_conv_nth length_take min.absorb2 nth_take)
      then have "\<exists>x\<in>set (rev (take k' rest)). \<not> blank x"
        using j by auto
      then have "takeWhile blank (rev (take k' rest) @ [line])
          = takeWhile blank (rev (take k' rest))"
        by (rule takeWhile_append_stop)
      then have pb: "preceding_blank (line # rest) k = preceding_blank rest k'"
        by (simp add: preceding_blank_def k)
      have "\<not> (\<forall>j<k. blank ((line # rest) ! j))"
        using all F by blast
      then show ?thesis
        using ih F pb by (simp only: if_False)
    qed
  next
    case False
    from scan_lines_nonblank [OF False, of p n rest] Cons.prems(1) obtain here out' where
      h: "out = here @ out'" "scan_lines 0 (n + 1) rest = Inr out'"
         "\<forall>i\<in>set here. line_nbr i = n"
         "length (filter (\<lambda>i. code i = ''S006'') here) = (if p > 2 then 1 else 0)"
      by auto
    have later: "\<forall>i\<in>set out'. n + 1 \<le> line_nbr i"
      using scan_lines_line_nbr [OF h(2)] .
    show ?thesis
    proof (cases k)
      case 0
      have "filter (\<lambda>i. code i = ''S006'' \<and> line_nbr i = n) out' = []"
        using later by (auto simp: filter_empty_conv)
      moreover have "filter (\<lambda>i. code i = ''S006'' \<and> line_nbr i = n) here
          = filter (\<lambda>i. code i = ''S006'') here"
        using h(3) by (auto intro: filter_cong)
      ultimately show ?thesis
        using h(1,4) 0 Cons.prems(4) by (auto simp: count_issues_def)
    next
      case (Suc k')
      have nb: "\<not> blank line" using False by (simp add: blank_def)
      have "filter (\<lambda>i. code i = ''S006'' \<and> line_nbr i = n + int k) here = []"
        using h(3) Suc by (auto simp: filter_empty_conv)
      have eq: "n + 1 + int k' = n + int k"
        using Suc by simp
      have c: "count_issues ''S006'' (n + int k) out
          = count_issues ''S006'' (n + 1 + int k') out'"
        using h(1) \<open>filter (\<lambda>i. code i = ''S006'' \<and> line_nbr i = n + int k) here = []\<close>
        unfolding eq by (simp add: count_issues_def)
      have ih: "count_issues ''S006'' (n + 1 + int k') out' =
        (if 2 < (if \<forall>j<k'. blank (rest ! j) then nat 0 + k' else preceding_blank rest k')
         then 1 else 0)"
        using Cons.IH [OF h(2), of k'] Cons.prems Suc by simp
      have notall: "\<not> (\<forall>j<k. blank ((line # rest) ! j))"
        using nb Suc by auto
      have pb: "preceding_blank (line # rest) k
          = (if \<forall>j<k'. blank (rest ! j) then k' else preceding_blank rest k')"
      proof (cases "\<forall>j<k'. blank (rest ! j)")
        case True
        have k'le: "k' \<le> length rest" using Cons.prems Suc by simp
        have "\<forall>x\<in>set (rev (take k' rest)). blank x"
          using True k'le by (auto simp: in_set_conv_nth)
        then have "takeWhile blank (rev (take k' rest) @ [line]) = rev (take k' rest)"
          using nb by (rule takeWhile_all_then_stop)
        then show ?thesis
          using True k'le by (simp add: preceding_blank_def Suc)
      next
        case F: False
        then obtain j where j: "j < k'" "\<not> blank (rest ! j)" by blast
        have "k' \<le> length rest" using Cons.prems Suc by simp
        with j have "rest ! j \<in> set (take k' rest)"
          by (metis in_set_conv_nth length_take min.absorb2 nth_take)
        then have "\<exists>x\<in>set (rev (take k' rest)). \<not> blank x"
          using j by auto
        then have "takeWhile blank (rev (take k' rest) @ [line])
            = takeWhile blank (rev (take k' rest))"
          by (rule takeWhile_append_stop)
        then have "preceding_blank (line # rest) k = preceding_blank rest k'"
          by (simp add: preceding_blank_def Suc)
        then show ?thesis
          using F by (simp only: if_False)
      qed
      have "count_issues ''S006'' (n + int k) out
          = (if 2 < preceding_blank (line # rest) k then 1 else 0)"
        unfolding c ih pb by auto
      then show ?thesis
        using notall by (simp only: if_False)
    qed
  qed
qed


text \<open>
  C8. The line-level pass is total: on every line and line number each of the seven line
  detectors returns a list of issues and raises nothing, and on every text, whatever it
  contains, get_issues_by_line returns a list of issues.
\<close>

theorem C8_line_pass_total:
  "(\<exists>xs. get_issue_001 line n = Inr xs) \<and> (\<exists>xs. get_issue_002 line n = Inr xs)
   \<and> (\<exists>xs. get_issue_003 line n = Inr xs) \<and> (\<exists>xs. get_issue_004 line n = Inr xs)
   \<and> (\<exists>xs. get_issue_005 line n = Inr xs) \<and> (\<exists>xs. get_issue_006 nbr_lines n = Inr xs)
   \<and> (\<exists>xs. get_issue_007 line n = Inr xs) \<and> (\<exists>out. get_issues_by_line text = Inr out)"
proof -
  have "\<exists>out. get_issues_by_line text = Inr out"
    unfolding get_issues_by_line_def by (rule scan_lines_Inr)
  then show ?thesis
    using get_issue_001_Inr [of line n] get_issue_002_Inr [of line n]
      get_issue_003_Inr [of line n] get_issue_004_Inr [of line n]
      get_issue_005_Inr [of line n] get_issue_006_Inr [of nbr_lines n]
      get_issue_007_Inr [of line n]
    by blast
qed

section \<open>Blank lines before a code line\<close>

lemma preceding_blank_all:
  assumes "\<forall>j<k. blank (ls ! j)" and "k \<le> length ls"
  shows "preceding_blank ls k = k"
proof -
  have "\<forall>x\<in>set (rev (take k ls)). blank x"
    using assms by (auto simp: in_set_conv_nth)
  then have tw: "takeWhile blank (rev (take k ls)) = rev (take k ls)"
    using takeWhile_eq_all_conv by blast
  have "length (rev (take k ls)) = k"
    using assms(2) by simp
  then show ?thesis
    unfolding preceding_blank_def tw .
qed

text \<open>
  C6. For every line of a text that is not blank, the line-level pass reports
  ExcessBlankLines (S006) at that line exactly once when more than two consecutive blank
  lines come just before it, and not at all otherwise. The count is that of the blank lines
  since the last line that is not blank, so it starts again after every such line.
\<close>

theorem C6_excess_blank_lines:
  assumes "get_issues_by_line text = Inr out"
    and "k < length (split_nl text)"
    and "\<not> blank (split_nl text ! k)"
  shows "count_issues ''S006'' (int k + 1) out
    = (if 2 < preceding_blank (split_nl text) k then 1 else 0)"
proof -
  have run: "scan_lines 0 1 (split_nl text) = Inr out"
    using assms(1) by (simp add: get_issues_by_line_def)
  have "count_issues ''S006'' (1 + int k) out =
    (if 2 < (if \<forall>j<k. blank (split_nl text ! j) then nat 0 + k
             else preceding_blank (split_nl text) k) then 1 else 0)"
    using scan_lines_count_S006 [OF run assms(2) assms(3)] by simp
  moreover have "(if \<forall>j<k. blank (split_nl text ! j) then nat 0 + k
      else preceding_blank (split_nl text) k) = preceding_blank (split_nl text) k"
    using preceding_blank_all [of k "split_nl text"] assms(2) by auto
  ultimately show ?thesis
    by (simp add: add.commute)
qed

theorem C6_excess_blank_lines_witness:
  "count_issues ''S006'' 4
     [mk_issue ''S006'' ''More than two blank lines preceding a code line'' 4] = 1
   \<and> get_issues_by_line ([newline, newline, newline] @ ''x'')
     = Inr [mk_issue ''S006'' ''More than two blank lines preceding a code line'' 4]
   \<and> get_issues_by_line (''a'' @ [newline, newline, newline] @ ''x'') = Inr []
   \<and> count_issues ''S006'' 4 [] = 0"
proof -
  let ?t3 = "[newline, newline, newline] @ ''x''"
  let ?t2 = "''a'' @ [newline, newline, newline] @ ''x''"
  let ?o3 = "[mk_issue ''S006'' ''More than two blank lines preceding a code line'' 4]"
  have r3: "get_issues_by_line ?t3 = Inr ?o3" by code_simp
  have k3: "3 < length (split_nl ?t3)" by code_simp
  have n3: "\<not> blank (split_nl ?t3 ! 3)" by code_simp
  have p3: "preceding_blank (split_nl ?t3) 3 = 3" by code_simp
  have r2: "get_issues_by_line ?t2 = Inr []" by code_simp
  have k2: "3 < length (split_nl ?t2)" by code_simp
  have n2: "\<not> blank (split_nl ?t2 ! 3)" by code_simp
  have p2: "preceding_blank (split_nl ?t2) 3 = 2" by code_simp
  have "count_issues ''S006'' 4 ?o3 = 1"
    using C6_excess_blank_lines [OF r3 k3 n3] p3 by simp
  moreover have "count_issues ''S006'' 4 [] = 0"
    using C6_excess_blank_lines [OF r2 k2 n2] p2 by simp
  ultimately show ?thesis
    using r3 r2 by simp
qed

section \<open>Semicolons\<close>

lemma py_in_single: "py_in [x] s = (x \<in> set s)"
  by (induction s) (auto simp: startswith_def)

lemma dropWhile_Cons_facts:
  "dropWhile P xs = y # ys \<Longrightarrow>
     \<not> P y \<and> set ys \<subseteq> set xs \<and> y \<in> set xs
     \<and> drop (Suc (length (takeWhile P xs))) xs = ys"
  by (induction xs) (auto split: if_splits)

lemma dropWhile_Nil_facts: "dropWhile P xs = [] \<Longrightarrow> (\<forall>x\<in>set xs. P x) \<and> takeWhile P xs = xs"
  by (induction xs) (auto split: if_splits)

lemma lazy_dots_quote_line:
  "newline \<notin> set cs \<Longrightarrow>
   lazy_dots_quote q cs =
     (if q \<in> set cs then Some (Suc (length (takeWhile (\<lambda>c. c \<noteq> q) cs))) else None)"
  by (induction cs) (auto simp: is_dot_def)

lemma re_sub_delete_skip:
  "(\<And>t. t \<noteq> [] \<Longrightarrow> hd t \<noteq> q \<Longrightarrow> m t = None) \<Longrightarrow> q \<notin> set a \<Longrightarrow>
   re_sub_delete m (a @ r) = a @ re_sub_delete m r"
proof (induction a)
  case Nil
  then show ?case by simp
next
  case (Cons x a)
  have "m (x # a @ r) = None"
    using Cons.prems(1) [of "x # a @ r"] Cons.prems(2) by auto
  then show ?case
    using Cons by simp
qed

lemma match_quoted_other: "t \<noteq> [] \<Longrightarrow> hd t \<noteq> q \<Longrightarrow> match_quoted q t = None"
  by (cases t) auto

lemma match_comment_other: "t \<noteq> [] \<Longrightarrow> hd t \<noteq> hash \<Longrightarrow> match_comment t = None"
  by (cases t) auto

lemma re_sub_delete_no_quote:
  "q \<notin> set a \<Longrightarrow> re_sub_delete (match_quoted q) a = a"
  using re_sub_delete_skip [of q "match_quoted q" a "[]"] match_quoted_other by simp

text \<open>On a line, deleting the matches of \<open>q.*?q\<close> removes the literals.\<close>

lemma re_sub_delete_quoted:
  "newline \<notin> set s \<Longrightarrow> re_sub_delete (match_quoted q) s = remove_literals q s"
proof (induction q s rule: remove_literals.induct)
  case (1 q s)
  let ?P = "\<lambda>c. c \<noteq> q"
  let ?m = "match_quoted q"
  have nq: "q \<notin> set (takeWhile ?P s)"
    by (auto dest: set_takeWhileD)
  have "re_sub_delete ?m (takeWhile ?P s @ dropWhile ?P s)
      = takeWhile ?P s @ re_sub_delete ?m (dropWhile ?P s)"
    using match_quoted_other nq by (rule re_sub_delete_skip)
  then have skip: "re_sub_delete ?m s = takeWhile ?P s @ re_sub_delete ?m (dropWhile ?P s)"
    by simp
  have nl_rest: "newline \<notin> set (dropWhile ?P s)"
    using "1.prems" by (auto dest: set_dropWhileD)
  show ?case
  proof (cases "dropWhile ?P s")
    case Nil
    show ?thesis
      unfolding skip by (simp add: remove_literals.simps [of q s] Let_def Nil)
  next
    case (Cons q1 inner)
    from dropWhile_Cons_facts [OF Cons] have op: "q1 = q"
      by simp
    have nl_inner: "newline \<notin> set inner"
      using nl_rest unfolding Cons by simp
    show ?thesis
    proof (cases "dropWhile ?P inner")
      case Nil
      from dropWhile_Nil_facts [OF Nil] have "q \<notin> set inner"
        by blast
      then have "re_sub_delete ?m (q # inner) = q # inner"
        using nl_inner by (simp add: lazy_dots_quote_line re_sub_delete_no_quote)
      then show ?thesis
        unfolding skip by (simp add: remove_literals.simps [of q s] Let_def Cons Nil op)
    next
      case inner: (Cons q2 after)
      from dropWhile_Cons_facts [OF inner]
      have q2: "q2 = q" and sub: "set after \<subseteq> set inner" and qin: "q2 \<in> set inner"
        and dr: "drop (Suc (length (takeWhile ?P inner))) inner = after"
        by blast+
      have nl_after: "newline \<notin> set after"
        using nl_inner sub by blast
      have "re_sub_delete ?m (q # inner) = re_sub_delete ?m after"
        using nl_inner qin q2 dr by (simp add: lazy_dots_quote_line)
      also have "\<dots> = remove_literals q after"
        using "1.IH" [OF refl refl Cons inner nl_after] .
      finally show ?thesis
        unfolding skip by (simp add: remove_literals.simps [of q s] Let_def Cons inner op)
    qed
  qed
qed

lemma greedy_dots_eol_line: "newline \<notin> set cs \<Longrightarrow> greedy_dots_eol cs = Some (length cs)"
  by (induction cs) (auto simp: is_dot_def)

text \<open>On a line, deleting the match of \<open>#.*$\<close> removes the trailing comment.\<close>

lemma re_sub_delete_comment:
  assumes nl: "newline \<notin> set s"
  shows "re_sub_delete match_comment s = remove_trailing_comment s"
proof -
  let ?P = "\<lambda>c. c \<noteq> hash"
  have nh: "hash \<notin> set (takeWhile ?P s)"
    by (auto dest: set_takeWhileD)
  have "re_sub_delete match_comment (takeWhile ?P s @ dropWhile ?P s)
      = takeWhile ?P s @ re_sub_delete match_comment (dropWhile ?P s)"
    using match_comment_other nh by (rule re_sub_delete_skip)
  then have skip: "re_sub_delete match_comment s
      = takeWhile ?P s @ re_sub_delete match_comment (dropWhile ?P s)"
    by simp
  have nl_rest: "newline \<notin> set (dropWhile ?P s)"
    using nl by (auto dest: set_dropWhileD)
  have "re_sub_delete match_comment (dropWhile ?P s) = []"
  proof (cases "dropWhile ?P s")
    case Nil
    show ?thesis by (simp add: Nil)
  next
    case (Cons c cs)
    from dropWhile_Cons_facts [OF Cons] have c: "c = hash"
      by simp
    have "newline \<notin> set cs"
      using nl_rest unfolding Cons by simp
    then have "re_sub_delete match_comment (hash # cs) = []"
      by (simp add: greedy_dots_eol_line)
    then show ?thesis
      by (simp add: Cons c)
  qed
  then show ?thesis
    unfolding skip by (simp add: remove_trailing_comment_def)
qed

lemma set_remove_literals: "set (remove_literals q s) \<subseteq> set s"
proof (induction q s rule: remove_literals.induct)
  case (1 q s)
  let ?P = "\<lambda>c. c \<noteq> q"
  have tw: "set (takeWhile ?P s) \<subseteq> set s"
    by (auto dest: set_takeWhileD)
  have dw: "set (dropWhile ?P s) \<subseteq> set s"
    by (auto dest: set_dropWhileD)
  show ?case
  proof (cases "dropWhile ?P s")
    case Nil
    show ?thesis
      using tw by (simp add: remove_literals.simps [of q s] Let_def Nil)
  next
    case (Cons q1 inner)
    have inner_sub: "set (q1 # inner) \<subseteq> set s"
      using dw unfolding Cons .
    show ?thesis
    proof (cases "dropWhile ?P inner")
      case Nil
      show ?thesis
        using tw inner_sub by (simp add: remove_literals.simps [of q s] Let_def Cons Nil)
    next
      case inner: (Cons q2 after)
      have "set (remove_literals q after) \<subseteq> set after"
        using "1.IH" [OF refl refl Cons inner] .
      moreover have "set after \<subseteq> set inner"
        using dropWhile_Cons_facts [OF inner] by simp
      ultimately have "set (remove_literals q after) \<subseteq> set s"
        using inner_sub by auto
      then show ?thesis
        using tw by (simp add: remove_literals.simps [of q s] Let_def Cons inner)
    qed
  qed
qed

lemma strip_003_line:
  assumes "newline \<notin> set line"
  shows "strip_003 line
    = remove_trailing_comment (remove_literals dquote (remove_literals squote line))"
proof -
  have n1: "newline \<notin> set (remove_literals squote line)"
    using assms set_remove_literals by blast
  then have n2: "newline \<notin> set (remove_literals dquote (remove_literals squote line))"
    using set_remove_literals by blast
  show ?thesis
    unfolding strip_003_def
    by (simp only: re_sub_delete_quoted [OF assms] re_sub_delete_quoted [OF n1]
        re_sub_delete_comment [OF n2])
qed

lemma get_issue_003_line:
  assumes "newline \<notin> set line"
  shows "get_issue_003 line n =
    Inr (if CHR '';'' \<in> set (remove_trailing_comment
                               (remove_literals dquote (remove_literals squote line)))
         then [mk_issue ''S003'' ''Unnecessary semicolon'' n] else [])"
  by (simp add: get_issue_003_def strip_003_line [OF assms] py_in_single)

lemma split_nl_no_newline: "\<forall>l\<in>set (split_nl t). newline \<notin> set l"
  by (induction t) (auto split: list.splits)

lemma scan_lines_count_S003:
  "scan_lines p n ls = Inr out \<Longrightarrow> k < length ls \<Longrightarrow> \<not> blank (ls ! k) \<Longrightarrow>
   \<exists>x3. get_issue_003 (ls ! k) (n + int k) = Inr x3
     \<and> count_issues ''S003'' (n + int k) out = length x3"
proof (induction ls arbitrary: p n k out)
  case Nil
  then show ?case by simp
next
  case (Cons line rest)
  show ?case
  proof (cases "strip line = []")
    case True
    then have "blank line" by (simp add: blank_def)
    with Cons.prems obtain k' where k: "k = Suc k'"
      by (cases k) auto
    from True Cons.prems have run: "scan_lines (p + 1) (n + 1) rest = Inr out" by simp
    have eq: "n + 1 + int k' = n + int k"
      using k by simp
    show ?thesis
      using Cons.IH [OF run, of k'] Cons.prems k unfolding eq by simp
  next
    case False
    from scan_lines_nonblank [OF False, of p n rest] Cons.prems(1) obtain here out' x3 where
      h: "out = here @ out'" "scan_lines 0 (n + 1) rest = Inr out'"
         "\<forall>i\<in>set here. line_nbr i = n"
         "get_issue_003 line n = Inr x3" "filter (\<lambda>i. code i = ''S003'') here = x3"
      by auto
    have later: "\<forall>i\<in>set out'. n + 1 \<le> line_nbr i"
      using scan_lines_line_nbr [OF h(2)] .
    show ?thesis
    proof (cases k)
      case 0
      have "filter (\<lambda>i. code i = ''S003'' \<and> line_nbr i = n) out' = []"
        using later by (auto simp: filter_empty_conv)
      moreover have "filter (\<lambda>i. code i = ''S003'' \<and> line_nbr i = n) here
          = filter (\<lambda>i. code i = ''S003'') here"
        using h(3) by (auto intro: filter_cong)
      ultimately have "count_issues ''S003'' n out = length x3"
        using h(1,5) by (simp add: count_issues_def)
      then show ?thesis
        using h(4) 0 by simp
    next
      case (Suc k')
      have none: "filter (\<lambda>i. code i = ''S003'' \<and> line_nbr i = n + int k) here = []"
        using h(3) Suc by (auto simp: filter_empty_conv)
      have eq: "n + 1 + int k' = n + int k"
        using Suc by simp
      have c: "count_issues ''S003'' (n + int k) out
          = count_issues ''S003'' (n + 1 + int k') out'"
        using h(1) none unfolding eq by (simp add: count_issues_def)
      show ?thesis
        using Cons.IH [OF h(2), of k'] Cons.prems Suc c unfolding eq by simp
    qed
  qed
qed

text \<open>
  C5. For every line of a text that is not blank, the line-level pass reports
  UnnecessarySemicolon (S003) at that line once if a \<open>;\<close> is left after the single-quoted
  literals, then the double-quoted literals, then the trailing comment from \<open>#\<close> have been
  removed from the line, and not at all otherwise. So \<open>x = 1  # comment; with semicolon\<close>
  gets no S003 and \<open>x = 1; y = 2\<close> gets one.
\<close>

theorem C5_unnecessary_semicolon:
  assumes "get_issues_by_line t = Inr out"
    and "k < length (split_nl t)"
    and "\<not> blank (split_nl t ! k)"
  shows "count_issues ''S003'' (int k + 1) out =
    (if CHR '';'' \<in> set (remove_trailing_comment
          (remove_literals dquote (remove_literals squote (split_nl t ! k))))
     then 1 else 0)"
proof -
  have run: "scan_lines 0 1 (split_nl t) = Inr out"
    using assms(1) by (simp add: get_issues_by_line_def)
  from scan_lines_count_S003 [OF run assms(2) assms(3)] obtain x3 where
    x3: "get_issue_003 (split_nl t ! k) (1 + int k) = Inr x3"
      "count_issues ''S003'' (1 + int k) out = length x3"
    by blast
  have "newline \<notin> set (split_nl t ! k)"
    using split_nl_no_newline assms(2) by (meson nth_mem)
  from get_issue_003_line [OF this, of "1 + int k"] x3(1)
  have "length x3 =
    (if CHR '';'' \<in> set (remove_trailing_comment
          (remove_literals dquote (remove_literals squote (split_nl t ! k))))
     then 1 else 0)"
    by (auto split: if_splits)
  then show ?thesis
    using x3(2) by (simp add: add.commute)
qed

theorem C5_unnecessary_semicolon_witness:
  "get_issues_by_line (''x = 1  # comment; with semicolon'' @ [newline] @ ''x = 1; y = 2'')
     = Inr [mk_issue ''S003'' ''Unnecessary semicolon'' 2]
   \<and> count_issues ''S003'' 1 [mk_issue ''S003'' ''Unnecessary semicolon'' 2] = 0
   \<and> count_issues ''S003'' 2 [mk_issue ''S003'' ''Unnecessary semicolon'' 2] = 1"
proof -
  let ?t = "''x = 1  # comment; with semicolon'' @ [newline] @ ''x = 1; y = 2''"
  let ?out = "[mk_issue ''S003'' ''Unnecessary semicolon'' 2]"
  have r: "get_issues_by_line ?t = Inr ?out" by code_simp
  have k0: "0 < length (split_nl ?t)" by code_simp
  have k1: "1 < length (split_nl ?t)" by code_simp
  have n0: "\<not> blank (split_nl ?t ! 0)" by code_simp
  have n1: "\<not> blank (split_nl ?t ! 1)" by code_simp
  have s0: "remove_trailing_comment (remove_literals dquote
      (remove_literals squote (split_nl ?t ! 0))) = ''x = 1  ''"
    by code_simp
  have s1: "remove_trailing_comment (remove_literals dquote
      (remove_literals squote (split_nl ?t ! 1))) = ''x = 1; y = 2''"
    by code_simp
  have "count_issues ''S003'' 1 ?out = 0"
    using C5_unnecessary_semicolon [OF r k0 n0] unfolding s0 by simp
  moreover have "count_issues ''S003'' 2 ?out = 1"
    using C5_unnecessary_semicolon [OF r k1 n1] unfolding s1 by simp
  ultimately show ?thesis
    using r by simp
qed

section \<open>Comments\<close>

text \<open>What get_issue_005 does on a line: it searches the whole line once it has a \<open>#\<close>.\<close>

lemma lazy_dots_comment_line:
  "newline \<notin> set s \<Longrightarrow>
   lazy_dots_comment s =
     (if hash \<in> set s
      then Some (length (takeWhile (\<lambda>c. c \<noteq> hash) s), length (dropWhile (\<lambda>c. c \<noteq> hash) s))
      else None)"
  by (induction s) (auto simp: is_dot_def greedy_dots_eol_line)

lemma match_todo_comment_line:
  assumes "newline \<notin> set s"
  shows "match_todo_comment s =
    (if hash \<in> set s then Some [Some s, Some (comment_part s)] else None)"
proof -
  let ?P = "\<lambda>c. c \<noteq> hash"
  have len: "length (takeWhile ?P s) + length (dropWhile ?P s) = length s"
    by (metis length_append takeWhile_dropWhile_id)
  have "drop (length (takeWhile ?P s)) s = dropWhile ?P s"
    by (induction s) auto
  then show ?thesis
    using len by (simp add: match_todo_comment_def lazy_dots_comment_line [OF assms] comment_part_def)
qed

lemma re_search_todo_comment_line:
  assumes "newline \<notin> set s"
  shows "re_search match_todo_comment s =
    (if hash \<in> set s then Some [Some s, Some (comment_part s)] else None)"
proof (cases "hash \<in> set s")
  case True
  then obtain c cs where "s = c # cs"
    by (cases s) auto
  then show ?thesis
    using True match_todo_comment_line [OF assms] by simp
next
  case False
  have "newline \<notin> set u \<Longrightarrow> hash \<notin> set u \<Longrightarrow> re_search match_todo_comment u = None" for u
  proof (induction u)
    case Nil
    then show ?case by (simp add: match_todo_comment_def)
  next
    case (Cons c cs)
    then show ?case
      using match_todo_comment_line [of "c # cs"] by simp
  qed
  then show ?thesis
    using assms False by simp
qed

lemma get_issue_005_line:
  assumes "newline \<notin> set line"
  shows "get_issue_005 line n =
    Inr (if hash \<in> set line \<and> py_in ''todo'' (lower line)
         then [mk_issue ''S005'' ''TODO found'' n] else [])"
  by (simp add: get_issue_005_def re_search_todo_comment_line [OF assms] and_then_def
      getitem_def py_lower_def)

text \<open>
  C1. TodoFound (S005) is to be reported exactly when the part of the line from its first
  \<open>#\<close> contains "todo" in any case, so that "todo" before the \<open>#\<close> does not count. The line
  \<open>todo = 1  # x\<close> has "todo" only before its \<open>#\<close>, and the line-level pass reports S005
  for it: get_issue_005 searches the whole match, which starts at the start of the line.
\<close>

theorem C1_todo_before_hash_reported:
  "\<not> py_in ''todo'' (lower (comment_part ''todo = 1  # x''))
   \<and> get_issues_by_line ''todo = 1  # x'' = Inr [mk_issue ''S005'' ''TODO found'' 1]"
  by code_simp

text \<open>
  What get_issue_004 does on a full-line comment: it reports the comment when exactly one
  whitespace character comes before the \<open>#\<close>.
\<close>

lemma greedy_ws_hash_prefix:
  "\<forall>c\<in>set ws. is_space c \<Longrightarrow> greedy_ws_hash (ws @ hash # rest) = Some (length ws)"
  by (induction ws) (auto simp: is_space_def hash_def)

lemma get_issue_004_full_line_comment:
  assumes "full_line_comment line"
  shows "get_issue_004 line n =
    Inr (if length (takeWhile is_space line) = 1
         then [mk_issue ''S004'' ''Less than two spaces before inline comments'' n] else [])"
proof -
  let ?ws = "takeWhile is_space line"
  obtain rest where rest: "dropWhile is_space line = hash # rest"
    using assms by (auto simp: full_line_comment_def split: list.splits)
  have line: "line = ?ws @ hash # rest"
    using rest by (metis takeWhile_dropWhile_id)
  have sp: "\<forall>c\<in>set ?ws. is_space c"
    by (auto dest: set_takeWhileD)
  have g: "greedy_ws_hash (?ws @ hash # rest) = Some (length ?ws)"
    using sp by (rule greedy_ws_hash_prefix)
  show ?thesis
  proof (cases ?ws)
    case Nil
    then have "line = hash # rest"
      using line by simp
    then have "startswith line ''#''"
      by (simp add: startswith_def hash_def)
    then show ?thesis
      using Nil by (simp add: get_issue_004_def)
  next
    case (Cons w ws')
    then have w: "is_space w"
      using sp by simp
    have l: "line = w # ws' @ hash # rest"
      using line Cons by simp
    have ns: "\<not> startswith line ''#''"
      using w unfolding l by (auto simp: startswith_def is_space_def)
    have "greedy_ws_hash (w # ws' @ hash # rest) = Some (Suc (length ws'))"
      using g Cons by simp
    then have m: "re_search match_ws_hash (w # ws' @ hash # rest)
        = Some [Some (take (Suc (Suc (length ws'))) (w # ws' @ hash # rest)),
                Some (take (Suc (length ws')) (w # ws' @ hash # rest))]"
      by (simp add: match_ws_hash_def)
    have "get_issue_004 (w # ws' @ hash # rest) n =
      Inr (if Suc (length ws') < 2
           then [mk_issue ''S004'' ''Less than two spaces before inline comments'' n] else [])"
      using ns unfolding l get_issue_004_def m
      by (simp add: and_then_def getitem_def py_len_def)
    moreover have "length ?ws = Suc (length ws')"
      using Cons by simp
    ultimately show ?thesis
      unfolding l [symmetric] by (auto simp: less_Suc_eq)
  qed
qed

text \<open>
  C2. A full-line comment is to get no CommentSpacing (S004) issue. The line \<open> # x\<close>, a
  comment after one space, is a full-line comment, and the line-level pass reports S004 for
  it (after S002 for its indentation): get_issue_004 leaves out only the lines whose first
  character is \<open>#\<close>.
\<close>

theorem C2_indented_comment_reported:
  "full_line_comment '' # x''
   \<and> get_issues_by_line '' # x''
     = Inr [mk_issue ''S002'' ''Indentation is not a multiple of four'' 1,
            mk_issue ''S004'' ''Less than two spaces before inline comments'' 1]"
  by code_simp

section \<open>Naming and default values\<close>

lemma get_issue_008_code: "i \<in> set (get_issue_008 name l) \<Longrightarrow> code i = ''S008''"
  by (auto simp: get_issue_008_def mk_issue_def split: option.splits)

lemma get_issue_009_code: "i \<in> set (get_issue_009 name l) \<Longrightarrow> code i = ''S009''"
  by (auto simp: get_issue_009_def mk_issue_def split: option.splits)

lemma get_issue_010_code: "i \<in> set (get_issue_010 a) \<Longrightarrow> code i = ''S010''"
  by (auto simp: get_issue_010_def issue_010_def mk_issue_def split: option.splits)

lemma target_issue_011_code: "i \<in> set (target_issue_011 l t) \<Longrightarrow> code i = ''S011''"
  by (cases t) (auto simp: mk_issue_def split: option.splits)

lemma stmt_issues_011_code: "i \<in> set (stmt_issues_011 s) \<Longrightarrow> code i = ''S011''"
  by (cases s) (auto dest: target_issue_011_code)

lemma get_issue_011_code: "i \<in> set (get_issue_011 body) \<Longrightarrow> code i = ''S011''"
  by (auto simp: get_issue_011_def dest: stmt_issues_011_code)

lemma get_issue_012_code: "i \<in> set (get_issue_012 a) \<Longrightarrow> code i = ''S012''"
  by (auto simp: get_issue_012_def issue_012_def mk_issue_def split: if_splits)

lemma filter_code_empty:
  "(\<And>i. i \<in> set xs \<Longrightarrow> code i = c') \<Longrightarrow> c' \<noteq> c \<Longrightarrow> filter (\<lambda>i. code i = c) xs = []"
  by (auto simp: filter_empty_conv)

lemma filter_code_all:
  "(\<And>i. i \<in> set xs \<Longrightarrow> code i = c) \<Longrightarrow> filter (\<lambda>i. code i = c) xs = xs"
  by (auto simp: filter_id_conv)

lemma node_issues_function_codes:
  assumes "i \<in> set (node_issues n)" and "code i \<in> {''S009'', ''S010'', ''S011'', ''S012''}"
  shows "\<exists>name a body decs ret l. n = StmtNode (FunctionDef name a body decs ret l)"
proof (cases n)
  case (StmtNode s)
  show ?thesis
  proof (cases s)
    case (ClassDef name bases body decs l)
    with StmtNode assms(1) have "code i = ''S008''"
      by (auto dest: get_issue_008_code)
    with assms(2) show ?thesis by simp
  qed (use StmtNode assms(1) in auto)
qed (use assms(1) in auto)

text \<open>
  C9. A function declared with \<open>async def\<close> is never inspected by a node-level detector:
  the pass yields nothing at an \<open>AsyncFunctionDef\<close> node, whatever its name, parameters,
  body and defaults, and every S009, S010, S011 or S012 issue of the pass is yielded at a
  plain \<open>FunctionDef\<close> node of the walk.
\<close>

theorem C9_async_not_inspected:
  "node_issues (StmtNode (AsyncFunctionDef name a body decs ret l)) = []
   \<and> (parse t = Inr tree \<and> get_issues_by_node parse t = Inr out \<and> i \<in> set out
        \<and> code i \<in> {''S009'', ''S010'', ''S011'', ''S012''}
      \<longrightarrow> (\<exists>name' a' body' decs' ret' l'.
            StmtNode (FunctionDef name' a' body' decs' ret' l') \<in> set (walk (ModuleNode tree))
            \<and> i \<in> set (node_issues (StmtNode (FunctionDef name' a' body' decs' ret' l')))))"
proof (intro conjI impI)
  show "node_issues (StmtNode (AsyncFunctionDef name a body decs ret l)) = []"
    by simp
next
  assume h: "parse t = Inr tree \<and> get_issues_by_node parse t = Inr out \<and> i \<in> set out
    \<and> code i \<in> {''S009'', ''S010'', ''S011'', ''S012''}"
  then have "out = concat (map node_issues (walk (ModuleNode tree)))"
    by (auto simp: get_issues_by_node_def and_then_def)
  with h obtain n where n: "n \<in> set (walk (ModuleNode tree))" "i \<in> set (node_issues n)"
    by auto
  from node_issues_function_codes [OF n(2)] h obtain name' a' body' decs' ret' l'
    where "n = StmtNode (FunctionDef name' a' body' decs' ret' l')"
    by blast
  with n show "\<exists>name' a' body' decs' ret' l'.
      StmtNode (FunctionDef name' a' body' decs' ret' l') \<in> set (walk (ModuleNode tree))
      \<and> i \<in> set (node_issues (StmtNode (FunctionDef name' a' body' decs' ret' l')))"
    by blast
qed

theorem C9_async_not_inspected_witness:
  "get_issues_by_node (\<lambda>t. Inr async_example) []
     = Inr [mk_issue ''S009''
              (''Function name '' @ [squote] @ ''Inner'' @ [squote] @ '' should use snake_case'') 3]
   \<and> (\<exists>name' a' body' decs' ret' l'.
        StmtNode (FunctionDef name' a' body' decs' ret' l')
          \<in> set (walk (ModuleNode async_example))
        \<and> mk_issue ''S009''
              (''Function name '' @ [squote] @ ''Inner'' @ [squote] @ '' should use snake_case'') 3
          \<in> set (node_issues (StmtNode (FunctionDef name' a' body' decs' ret' l'))))"
proof -
  let ?i = "mk_issue ''S009''
    (''Function name '' @ [squote] @ ''Inner'' @ [squote] @ '' should use snake_case'') 3"
  have p: "(\<lambda>t. Inr async_example) [] = Inr async_example"
    by simp
  have r: "get_issues_by_node (\<lambda>t. Inr async_example) [] = Inr [?i]"
    by code_simp
  have m: "?i \<in> set [?i]"
    by simp
  have c: "code ?i \<in> {''S009'', ''S010'', ''S011'', ''S012''}"
    by (simp add: mk_issue_def)
  show ?thesis
    using C9_async_not_inspected [of "''BadName''" "Arguments [] [] None [] [] None []" "[]" "[]" None 1
        "\<lambda>t. Inr async_example" "[]" async_example "[?i]" ?i] p r m c
    by blast
qed


text \<open>
  C10. MutableDefaultArgument (S012) inspects only \<open>args.defaults\<close>, the defaults of the
  positional parameters: the S012 issues of a function definition are those of its
  \<open>defaults\<close>, whatever its keyword-only parameters and their defaults \<open>kw_defaults\<close>
  are, and every S012 issue of the pass is for a list, dict or set literal in the
  \<open>defaults\<close> of a function definition of the walk.
\<close>

theorem C10_only_positional_defaults:
  "filter (\<lambda>i. code i = ''S012'')
       (node_issues (StmtNode (FunctionDef name (Arguments po ar va kwo kwd kwa ds) body decs ret l)))
     = concat (map issue_012 ds)
   \<and> (parse t = Inr tree \<and> get_issues_by_node parse t = Inr out \<and> i \<in> set out
        \<and> code i = ''S012''
      \<longrightarrow> (\<exists>name' a' body' decs' ret' l' d.
            StmtNode (FunctionDef name' a' body' decs' ret' l') \<in> set (walk (ModuleNode tree))
            \<and> d \<in> set (defaults a') \<and> is_mutable_literal d
            \<and> i = mk_issue ''S012'' ''Default argument value is mutable'' (expr_lineno d)))"
proof (intro conjI impI)
  let ?a = "Arguments po ar va kwo kwd kwa ds"
  have "filter (\<lambda>i. code i = ''S012'') (get_issue_009 name l) = []"
    by (rule filter_code_empty [where c' = "''S009''"]) (auto dest: get_issue_009_code)
  moreover have "filter (\<lambda>i. code i = ''S012'') (get_issue_010 ?a) = []"
    by (rule filter_code_empty [where c' = "''S010''"]) (auto dest: get_issue_010_code)
  moreover have "filter (\<lambda>i. code i = ''S012'') (get_issue_011 body) = []"
    by (rule filter_code_empty [where c' = "''S011''"]) (auto dest: get_issue_011_code)
  moreover have "filter (\<lambda>i. code i = ''S012'') (get_issue_012 ?a) = get_issue_012 ?a"
    by (rule filter_code_all) (auto dest: get_issue_012_code)
  ultimately show "filter (\<lambda>i. code i = ''S012'')
      (node_issues (StmtNode (FunctionDef name ?a body decs ret l)))
    = concat (map issue_012 ds)"
    by (simp add: get_issue_012_def)
next
  assume h: "parse t = Inr tree \<and> get_issues_by_node parse t = Inr out \<and> i \<in> set out
    \<and> code i = ''S012''"
  then have "out = concat (map node_issues (walk (ModuleNode tree)))"
    by (auto simp: get_issues_by_node_def and_then_def)
  with h obtain n where n: "n \<in> set (walk (ModuleNode tree))" "i \<in> set (node_issues n)"
    by auto
  from node_issues_function_codes [OF n(2)] h obtain name' a' body' decs' ret' l'
    where fd: "n = StmtNode (FunctionDef name' a' body' decs' ret' l')"
    by auto
  have c: "code i = ''S012''"
    using h by simp
  have "i \<in> set (get_issue_012 a')"
    using n(2) c unfolding fd
    by (auto dest: get_issue_009_code get_issue_010_code get_issue_011_code)
  then obtain d where "d \<in> set (defaults a')" "is_mutable_literal d"
      "i = mk_issue ''S012'' ''Default argument value is mutable'' (expr_lineno d)"
    by (auto simp: get_issue_012_def issue_012_def split: if_splits)
  with n(1) fd show "\<exists>name' a' body' decs' ret' l' d.
      StmtNode (FunctionDef name' a' body' decs' ret' l') \<in> set (walk (ModuleNode tree))
      \<and> d \<in> set (defaults a') \<and> is_mutable_literal d
      \<and> i = mk_issue ''S012'' ''Default argument value is mutable'' (expr_lineno d)"
    by blast
qed

theorem C10_only_positional_defaults_witness:
  "get_issues_by_node (\<lambda>t. Inr kwonly_example) []
     = Inr [mk_issue ''S012'' ''Default argument value is mutable'' 1]
   \<and> (\<exists>name' a' body' decs' ret' l' d.
        StmtNode (FunctionDef name' a' body' decs' ret' l')
          \<in> set (walk (ModuleNode kwonly_example))
        \<and> d \<in> set (defaults a') \<and> is_mutable_literal d
        \<and> mk_issue ''S012'' ''Default argument value is mutable'' 1
          = mk_issue ''S012'' ''Default argument value is mutable'' (expr_lineno d))
   \<and> filter (\<lambda>i. code i = ''S012'')
       (node_issues (StmtNode (FunctionDef ''g''
          (Arguments [] [] None [Arg ''c'' None 1] [Some (SetExpr [] 1)] None [])
          [] [] None 1))) = []"
proof -
  let ?i = "mk_issue ''S012'' ''Default argument value is mutable'' 1"
  have p: "(\<lambda>t. Inr kwonly_example) [] = Inr kwonly_example"
    by simp
  have r: "get_issues_by_node (\<lambda>t. Inr kwonly_example) [] = Inr [?i]"
    by code_simp
  have m: "?i \<in> set [?i]"
    by simp
  have c: "code ?i = ''S012''"
    by (simp add: mk_issue_def)
  have "filter (\<lambda>i. code i = ''S012'')
       (node_issues (StmtNode (FunctionDef ''g''
          (Arguments [] [] None [Arg ''c'' None 1] [Some (SetExpr [] 1)] None [])
          [] [] None 1))) = concat (map issue_012 [])"
    using C10_only_positional_defaults [of "''g''" "[]" "[]" None "[Arg ''c'' None 1]"
        "[Some (SetExpr [] 1)]" None "[]" "[]" "[]" None 1] by blast
  moreover have "\<exists>name' a' body' decs' ret' l' d.
        StmtNode (FunctionDef name' a' body' decs' ret' l')
          \<in> set (walk (ModuleNode kwonly_example))
        \<and> d \<in> set (defaults a') \<and> is_mutable_literal d
        \<and> ?i = mk_issue ''S012'' ''Default argument value is mutable'' (expr_lineno d)"
    using C10_only_positional_defaults [of "''g''" "[]" "[]" None "[]" "[]" None "[]" "[]" "[]"
        None 1 "\<lambda>t. Inr kwonly_example" "[]" kwonly_example "[?i]" ?i] p r m c
    by blast
  ultimately show ?thesis
    using r by simp
qed

lemma is_snake_case_None: "(is_snake_case name = None) = (\<not> first_char_snake name)"
  by (cases name) (simp_all add: is_snake_case_def first_char_snake_def)

lemma length_concat_filter:
  "(\<And>x. x \<in> set xs \<Longrightarrow> length (f x) = length (filter P (g x))) \<Longrightarrow>
   length (concat (map f xs)) = length (filter P (concat (map g xs)))"
  by (induction xs) simp_all

lemma length_issue_010:
  "length (issue_010 x) = length (filter (\<lambda>x. \<not> first_char_snake (arg_name x)) [x])"
  using is_snake_case_None [of "arg_name x"]
  by (cases "is_snake_case (arg_name x)") (simp_all add: issue_010_def)

lemma length_get_issue_010:
  "length (get_issue_010 a) = length (filter (\<lambda>x. \<not> first_char_snake (arg_name x)) (args a))"
proof -
  have "length (concat (map issue_010 (args a)))
    = length (filter (\<lambda>x. \<not> first_char_snake (arg_name x)) (concat (map (\<lambda>x. [x]) (args a))))"
    by (rule length_concat_filter) (rule length_issue_010)
  then show ?thesis
    by (simp add: get_issue_010_def)
qed

lemma length_target_issue_011:
  "length (target_issue_011 lineno e)
    = length (filter (\<lambda>n. \<not> first_char_snake n) (target_names e))"
proof (cases e)
  case (Name ident l)
  then show ?thesis
    using is_snake_case_None [of ident] by (cases "is_snake_case ident") simp_all
qed simp_all

lemma length_stmt_issues_011:
  "length (stmt_issues_011 s)
    = length (filter (\<lambda>n. \<not> first_char_snake n) (stmt_assigned_names s))"
proof (cases s)
  case (Assign targets val lineno)
  have "length (concat (map (target_issue_011 lineno) targets))
    = length (filter (\<lambda>n. \<not> first_char_snake n) (concat (map target_names targets)))"
    by (rule length_concat_filter) (rule length_target_issue_011)
  then show ?thesis
    using Assign by simp
qed simp_all

lemma length_get_issue_011:
  "length (get_issue_011 body)
    = length (filter (\<lambda>n. \<not> first_char_snake n) (assigned_names body))"
  unfolding get_issue_011_def assigned_names_def
  by (rule length_concat_filter) (rule length_stmt_issues_011)

text \<open>
  C7. For a function definition whose name starts with the character \<open>c\<close>, the pass
  yields no FunctionNamingConvention (S009) issue at its node when \<open>c\<close> is a lowercase
  ASCII letter or an underscore, and one otherwise, whatever the rest of the name is. The
  same predicate on the first character governs S010 and S011: at the node of a function
  definition the pass yields one S010 issue for each parameter in \<open>args.args\<close>, and one
  S011 issue for each plain-name target of an assignment directly in the body, whose name
  does not start with a lowercase ASCII letter or an underscore, and no other.
\<close>

theorem C7_first_character_only:
  "length (filter (\<lambda>i. code i = ''S009'')
       (node_issues (StmtNode (FunctionDef (c # rest) a body decs ret l))))
     = (if is_snake_start c then 0 else 1)
   \<and> length (filter (\<lambda>i. code i = ''S010'')
       (node_issues (StmtNode (FunctionDef name a body decs ret l))))
     = length (filter (\<lambda>x. \<not> first_char_snake (arg_name x)) (args a))
   \<and> length (filter (\<lambda>i. code i = ''S011'')
       (node_issues (StmtNode (FunctionDef name a body decs ret l))))
     = length (filter (\<lambda>n. \<not> first_char_snake n) (assigned_names body))
   \<and> first_char_snake (c # rest) = is_snake_start c"
proof (intro conjI)
  have "filter (\<lambda>i. code i = ''S009'') (get_issue_010 a) = []"
    by (rule filter_code_empty [where c' = "''S010''"]) (auto dest: get_issue_010_code)
  moreover have "filter (\<lambda>i. code i = ''S009'') (get_issue_011 body) = []"
    by (rule filter_code_empty [where c' = "''S011''"]) (auto dest: get_issue_011_code)
  moreover have "filter (\<lambda>i. code i = ''S009'') (get_issue_012 a) = []"
    by (rule filter_code_empty [where c' = "''S012''"]) (auto dest: get_issue_012_code)
  moreover have "filter (\<lambda>i. code i = ''S009'') (get_issue_009 (c # rest) l)
      = get_issue_009 (c # rest) l"
    by (rule filter_code_all) (auto dest: get_issue_009_code)
  moreover have "length (get_issue_009 (c # rest) l) = (if is_snake_start c then 0 else 1)"
    by (simp add: get_issue_009_def is_snake_case_def)
  ultimately show "length (filter (\<lambda>i. code i = ''S009'')
       (node_issues (StmtNode (FunctionDef (c # rest) a body decs ret l))))
     = (if is_snake_start c then 0 else 1)"
    by simp
next
  have "filter (\<lambda>i. code i = ''S010'') (get_issue_009 name l) = []"
    by (rule filter_code_empty [where c' = "''S009''"]) (auto dest: get_issue_009_code)
  moreover have "filter (\<lambda>i. code i = ''S010'') (get_issue_011 body) = []"
    by (rule filter_code_empty [where c' = "''S011''"]) (auto dest: get_issue_011_code)
  moreover have "filter (\<lambda>i. code i = ''S010'') (get_issue_012 a) = []"
    by (rule filter_code_empty [where c' = "''S012''"]) (auto dest: get_issue_012_code)
  moreover have "filter (\<lambda>i. code i = ''S010'') (get_issue_010 a) = get_issue_010 a"
    by (rule filter_code_all) (auto dest: get_issue_010_code)
  ultimately show "length (filter (\<lambda>i. code i = ''S010'')
       (node_issues (StmtNode (FunctionDef name a body decs ret l))))
     = length (filter (\<lambda>x. \<not> first_char_snake (arg_name x)) (args a))"
    by (simp add: length_get_issue_010)
next
  have "filter (\<lambda>i. code i = ''S011'') (get_issue_009 name l) = []"
    by (rule filter_code_empty [where c' = "''S009''"]) (auto dest: get_issue_009_code)
  moreover have "filter (\<lambda>i. code i = ''S011'') (get_issue_010 a) = []"
    by (rule filter_code_empty [where c' = "''S010''"]) (auto dest: get_issue_010_code)
  moreover have "filter (\<lambda>i. code i = ''S011'') (get_issue_012 a) = []"
    by (rule filter_code_empty [where c' = "''S012''"]) (auto dest: get_issue_012_code)
  moreover have "filter (\<lambda>i. code i = ''S011'') (get_issue_011 body) = get_issue_011 body"
    by (rule filter_code_all) (auto dest: get_issue_011_code)
  ultimately show "length (filter (\<lambda>i. code i = ''S011'')
       (node_issues (StmtNode (FunctionDef name a body decs ret l))))
     = length (filter (\<lambda>n. \<not> first_char_snake n) (assigned_names body))"
    by (simp add: length_get_issue_011)
next
  show "first_char_snake (c # rest) = is_snake_start c"
    by (simp add: first_char_snake_def)
qed

theorem C7_first_character_only_witness:
  "get_issues_by_node (\<lambda>t. Inr naming_example) []
     = Inr [mk_issue ''S010''
              (''Argument name '' @ [squote] @ ''Xbad'' @ [squote] @ '' should be snake case'') 1,
            mk_issue ''S011''
              (''Variable '' @ [squote] @ ''Zed'' @ [squote] @ '' should be snake case'') 2]
   \<and> length (filter (\<lambda>i. code i = ''S009'')
       (node_issues (StmtNode (FunctionDef ''my_Function2''
          (Arguments [] [Arg ''_X9'' None 1, Arg ''Xbad'' None 1] None [] [] None [])
          [Assign [Name ''xY'' 2, Name ''Zed'' 2] (OtherExpr [] 2) 2, OtherStmt [] [] 3]
          [] None 1)))) = 0
   \<and> length (filter (\<lambda>i. code i = ''S010'')
       (node_issues (StmtNode (FunctionDef ''my_Function2''
          (Arguments [] [Arg ''_X9'' None 1, Arg ''Xbad'' None 1] None [] [] None [])
          [Assign [Name ''xY'' 2, Name ''Zed'' 2] (OtherExpr [] 2) 2, OtherStmt [] [] 3]
          [] None 1)))) = 1
   \<and> length (filter (\<lambda>i. code i = ''S011'')
       (node_issues (StmtNode (FunctionDef ''my_Function2''
          (Arguments [] [Arg ''_X9'' None 1, Arg ''Xbad'' None 1] None [] [] None [])
          [Assign [Name ''xY'' 2, Name ''Zed'' 2] (OtherExpr [] 2) 2, OtherStmt [] [] 3]
          [] None 1)))) = 1
   \<and> length (filter (\<lambda>i. code i = ''S009'')
       (node_issues (StmtNode (FunctionDef ''MyFunction'' (Arguments [] [] None [] [] None [])
          [] [] None 1)))) = 1"
proof -
  let ?a = "Arguments [] [Arg ''_X9'' None 1, Arg ''Xbad'' None 1] None [] [] None []"
  let ?body = "[Assign [Name ''xY'' 2, Name ''Zed'' 2] (OtherExpr [] 2) 2, OtherStmt [] [] 3]"
  have m: "is_snake_start CHR ''m''" and M: "\<not> is_snake_start CHR ''M''"
    by (simp_all add: is_snake_start_def)
  have pa: "length (filter (\<lambda>x. \<not> first_char_snake (arg_name x)) (args ?a)) = 1"
    by code_simp
  have pb: "length (filter (\<lambda>n. \<not> first_char_snake n) (assigned_names ?body)) = 1"
    by code_simp
  have r: "get_issues_by_node (\<lambda>t. Inr naming_example) []
     = Inr [mk_issue ''S010''
              (''Argument name '' @ [squote] @ ''Xbad'' @ [squote] @ '' should be snake case'') 1,
            mk_issue ''S011''
              (''Variable '' @ [squote] @ ''Zed'' @ [squote] @ '' should be snake case'') 2]"
    by code_simp
  show ?thesis
    using C7_first_character_only [of "CHR ''m''" "''y_Function2''" ?a ?body "[]" None 1
        "''my_Function2''"]
      C7_first_character_only [of "CHR ''M''" "''yFunction''"
        "Arguments [] [] None [] [] None []" "[]" "[]" None 1 "''MyFunction''"]
      m M pa pb r
    by simp
qed

section \<open>Parse errors and the order of the report\<close>

lemma get_issues_by_line_Inr: "\<exists>out. get_issues_by_line t = Inr out"
  unfolding get_issues_by_line_def by (rule scan_lines_Inr)

text \<open>
  C3. When parsing the source text fails, the node-level pass ends with the parser's
  exception, which is not the empty issue list, and so do the report and check_file;
  a parser that raises SyntaxError on \<open>def f(:\<close> gives SyntaxError there.
\<close>

theorem C3_parse_error_propagates:
  assumes "parse t = Inl e"
  shows "get_issues_by_node parse t = Inl e \<and> get_issues_by_node parse t \<noteq> Inr []
    \<and> report parse t = Inl e \<and> check_file parse filepath t = Inl e"
proof -
  have node: "get_issues_by_node parse t = Inl e"
    using assms by (simp add: get_issues_by_node_def and_then_def)
  obtain by_line where "get_issues_by_line t = Inr by_line"
    using get_issues_by_line_Inr by blast
  then have rep: "report parse t = Inl e"
    using node by (simp add: report_def and_then_def)
  then have "check_file parse filepath t = Inl e"
    by (simp add: check_file_def and_then_def)
  with node rep show ?thesis
    by simp
qed

theorem C3_parse_error_propagates_witness:
  "rejecting_parser ''def f(:'' = Inl SyntaxError
   \<and> get_issues_by_node rejecting_parser ''def f(:'' = Inl SyntaxError
   \<and> get_issues_by_node rejecting_parser ''def f(:'' \<noteq> Inr []
   \<and> report rejecting_parser ''def f(:'' = Inl SyntaxError
   \<and> check_file rejecting_parser ''a.py'' ''def f(:'' = Inl SyntaxError"
proof -
  have h: "rejecting_parser ''def f(:'' = Inl SyntaxError"
    by (simp add: rejecting_parser_def)
  show ?thesis
    using h C3_parse_error_propagates
      [of rejecting_parser "''def f(:''" SyntaxError "''a.py''", OF h]
    by simp
qed

lemma sorted_key_adjacent:
  "sorted (map f xs) \<Longrightarrow> Suc i < length xs \<Longrightarrow> f (xs ! i) \<le> f (xs ! Suc i)"
  using sorted_nth_mono [of "map f xs" i "Suc i"] by simp

text \<open>
  C4. The issues are reported in ascending order of (line number, code): of two adjacent
  issues, the first has the smaller line number, or the same line number and a code that
  is lexically not greater.
\<close>

theorem C4_report_sorted:
  assumes "report parse t = Inr out" and "Suc i < length out"
  shows "line_nbr (out ! i) < line_nbr (out ! Suc i)
    \<or> (line_nbr (out ! i) = line_nbr (out ! Suc i) \<and> code (out ! i) \<le> code (out ! Suc i))"
proof -
  obtain issues where out: "out = sort_issues issues"
    using assms(1) by (auto simp: report_def and_then_def split: sum.splits)
  have "sorted (map (\<lambda>i. (line_nbr i, code i)) out)"
    unfolding out sort_issues_def by (rule sorted_sort_key)
  from sorted_key_adjacent [OF this assms(2)]
  have "(line_nbr (out ! i), code (out ! i)) \<le> (line_nbr (out ! Suc i), code (out ! Suc i))" .
  then show ?thesis
    by (auto simp: less_eq_prod_def)
qed

theorem C4_report_sorted_witness:
  "report (\<lambda>t. Inr two_defs_example) ''class myClass: pass; # todo''
     = Inr [mk_issue ''S003'' ''Unnecessary semicolon'' 1,
            mk_issue ''S004'' ''Less than two spaces before inline comments'' 1,
            mk_issue ''S005'' ''TODO found'' 1,
            mk_issue ''S008''
              (''Class name '' @ [squote] @ ''myClass'' @ [squote] @ '' should use CamelCase'') 1,
            mk_issue ''S009''
              (''Function name '' @ [squote] @ ''Bad'' @ [squote] @ '' should use snake_case'') 1,
            mk_issue ''S010''
              (''Argument name '' @ [squote] @ ''X'' @ [squote] @ '' should be snake case'') 1]
   \<and> ''S004'' \<le> ''S005''"
proof -
  let ?out = "[mk_issue ''S003'' ''Unnecessary semicolon'' 1,
            mk_issue ''S004'' ''Less than two spaces before inline comments'' 1,
            mk_issue ''S005'' ''TODO found'' 1,
            mk_issue ''S008''
              (''Class name '' @ [squote] @ ''myClass'' @ [squote] @ '' should use CamelCase'') 1,
            mk_issue ''S009''
              (''Function name '' @ [squote] @ ''Bad'' @ [squote] @ '' should use snake_case'') 1,
            mk_issue ''S010''
              (''Argument name '' @ [squote] @ ''X'' @ [squote] @ '' should be snake case'') 1]"
  have r: "report (\<lambda>t. Inr two_defs_example) ''class myClass: pass; # todo'' = Inr ?out"
    by code_simp
  have l: "Suc 1 < length ?out"
    by simp
  have "line_nbr (?out ! 1) < line_nbr (?out ! Suc 1)
    \<or> (line_nbr (?out ! 1) = line_nbr (?out ! Suc 1) \<and> code (?out ! 1) \<le> code (?out ! Suc 1))"
    using r l by (rule C4_report_sorted)
  then have "''S004'' \<le> ''S005''"
    by (simp add: mk_issue_def)
  with r show ?thesis
    by simp
qed


end
